theory Spec2Isabelle
  imports Main "HOL-Library.Sublist"
begin

section \<open>Python values\<close>

text \<open>
  A Python \<open>str\<close> is a sequence of Unicode code points. The module formats a Japanese
  error message and compares window titles, so strings are lists of code points.
  Handles are Python's unbounded integers.
\<close>

type_synonym pystr = "nat list"

definition str :: "string \<Rightarrow> pystr" where
  "str cs = map of_char cs"

datatype error =
    TimeoutError pystr
  | RuntimeError
  | AttributeError
  | ExternalError

subsection \<open>The dictionary \<open>Window.handlers\<close>\<close>

text \<open>
  A CPython \<open>dict\<close> keeps its entries in insertion order, one entry per key:
  \<open>d[k] = v\<close> replaces the value of a key that is present and appends a new entry
  otherwise; \<open>del d[k]\<close> removes the entry of a key that is present.
\<close>

definition dict_keys :: "('k \<times> 'v) list \<Rightarrow> 'k list" where
  "dict_keys d = map fst d"

definition dict_values :: "('k \<times> 'v) list \<Rightarrow> 'v list" where
  "dict_values d = map snd d"

definition dict_setitem :: "'k \<Rightarrow> 'v \<Rightarrow> ('k \<times> 'v) list \<Rightarrow> ('k \<times> 'v) list" where
  "dict_setitem k v d =
     (if k \<in> set (dict_keys d) then map (\<lambda>(k', v'). if k' = k then (k', v) else (k', v')) d
      else d @ [(k, v)])"

definition dict_delitem :: "'k \<Rightarrow> ('k \<times> 'v) list \<Rightarrow> ('k \<times> 'v) list" where
  "dict_delitem k d = filter (\<lambda>(k', v'). k' \<noteq> k) d"

section \<open>Objects, the OS capability and the world\<close>

datatype wclass = Window | RecycleBinFolder | Explorer

text \<open>
  An instance: its class and its private attributes (\<open>None\<close>: not assigned yet, reading
  it raises \<open>AttributeError\<close>). \<open>__hdlr\<close> belongs to \<open>Window\<close>, \<open>__allow_chdir\<close> to
  \<open>Explorer\<close>, \<open>__first_title\<close> to \<open>RecycleBinFolder\<close> and to \<open>Explorer\<close>.
\<close>

record obj =
  cls :: wclass
  priv_hdlr :: "int option"
  priv_allow_chdir :: "bool option"
  priv_first_title :: "pystr option"

text \<open>
  \<open>User32\<close> comes from the module \<open>cfg\<close>, which is outside the sources at hand: its
  functions are a parameter. Each one reads the state of the operating system and may
  change it. \<open>FindWindowExW\<close> is always called with \<open>None\<close> for parent, child and class,
  so only the title is an argument here.
\<close>

record 'os User32 =
  FindWindowExW :: "pystr \<Rightarrow> 'os \<Rightarrow> int \<times> 'os"
  IsWindowEnabled :: "int \<Rightarrow> 'os \<Rightarrow> bool \<times> 'os"
  SendMessageW :: "int \<Rightarrow> int \<Rightarrow> int \<Rightarrow> int \<Rightarrow> 'os \<Rightarrow> int \<times> 'os"
  MoveWindow :: "int \<Rightarrow> int \<Rightarrow> int \<Rightarrow> int \<Rightarrow> int \<Rightarrow> bool \<Rightarrow> 'os \<Rightarrow> bool \<times> 'os"
  GetWindowRect :: "int \<Rightarrow> 'os \<Rightarrow> (int \<times> int \<times> int \<times> int) \<times> 'os"
  GetWindowTextW :: "int \<Rightarrow> 'os \<Rightarrow> pystr \<times> 'os"

text \<open>
  The collaborators of the two subclasses' constructors: \<open>CPath(...).validate\<close> of
  otsuvalidator (it raises on a path that is not an existing directory), \<open>Path.name\<close>,
  and \<open>subprocess.Popen(args).wait()\<close>.
\<close>

record 'os launcher =
  CPath_validate :: "pystr \<Rightarrow> 'os \<Rightarrow> (error + pystr) \<times> 'os"
  Path_name :: "pystr \<Rightarrow> pystr"
  Popen_wait :: "pystr list \<Rightarrow> 'os \<Rightarrow> 'os"

text \<open>The calls made to the operating system, in order, are recorded.\<close>

datatype call =
    Call_FindWindowExW pystr
  | Call_IsWindowEnabled int
  | Call_SendMessageW int int int int
  | Call_MoveWindow int int int int int bool
  | Call_GetWindowRect int
  | Call_GetWindowTextW int
  | Call_Popen "pystr list"

fun is_MoveWindow :: "call \<Rightarrow> bool" where
  "is_MoveWindow (Call_MoveWindow h x y w h' r) = True"
| "is_MoveWindow c = False"

fun is_GetWindowRect :: "call \<Rightarrow> bool" where
  "is_GetWindowRect (Call_GetWindowRect h) = True"
| "is_GetWindowRect c = False"

fun is_FindWindowExW :: "call \<Rightarrow> bool" where
  "is_FindWindowExW (Call_FindWindowExW t) = True"
| "is_FindWindowExW c = False"

text \<open>
  The world: the operating system, the class attribute \<open>Window.handlers\<close> (handle to
  instance), the instances by reference, the next free reference, and the calls made.
\<close>

record 'os world =
  os :: 'os
  handlers :: "(int \<times> nat) list"
  heap :: "nat \<Rightarrow> obj"
  next_ref :: nat
  calls :: "call list"

text \<open>
  A method takes the world and returns a value or the exception raised, with the world
  as it is then: what an exception leaves behind in \<open>Window.handlers\<close> stays.
\<close>

type_synonym ('a, 'os) act = "'os world \<Rightarrow> (error + 'a) \<times> 'os world"

definition ret :: "'a \<Rightarrow> ('a, 'os) act" where
  "ret a s = (Inr a, s)"

definition and_then :: "('a, 'os) act \<Rightarrow> ('a \<Rightarrow> ('b, 'os) act) \<Rightarrow> ('b, 'os) act" where
  "and_then m f s = (case m s of (Inl e, s') \<Rightarrow> (Inl e, s') | (Inr a, s') \<Rightarrow> f a s')"

definition os_query :: "call \<Rightarrow> ('os \<Rightarrow> 'a \<times> 'os) \<Rightarrow> 'os world \<Rightarrow> 'a \<times> 'os world" where
  "os_query c f s = (case f (os s) of (a, o') \<Rightarrow> (a, s\<lparr>os := o', calls := calls s @ [c]\<rparr>))"

definition os_call :: "call \<Rightarrow> ('os \<Rightarrow> 'a \<times> 'os) \<Rightarrow> ('a, 'os) act" where
  "os_call c f s = (case os_query c f s of (a, s') \<Rightarrow> (Inr a, s'))"

section \<open>class Window\<close>

text \<open>The property \<open>handler\<close>: \<open>return self.__hdlr\<close>.\<close>

definition handler :: "nat \<Rightarrow> (int, 'os) act" where
  "handler self s =
     (case priv_hdlr (heap s self) of None \<Rightarrow> (Inl AttributeError, s) | Some h \<Rightarrow> (Inr h, s))"

text \<open>The property \<open>allow_chdir\<close> of \<open>Explorer\<close>.\<close>

definition allow_chdir :: "nat \<Rightarrow> (bool, 'os) act" where
  "allow_chdir self s =
     (case cls (heap s self) of
        Explorer \<Rightarrow>
          (case priv_allow_chdir (heap s self) of
             None \<Rightarrow> (Inl AttributeError, s) | Some b \<Rightarrow> (Inr b, s))
      | _ \<Rightarrow> (Inl AttributeError, s))"

text \<open>
  The property \<open>first_title\<close>: \<open>RecycleBinFolder\<close> and \<open>Explorer\<close> define it,
  \<open>Window\<close> does not.
\<close>

definition first_title :: "nat \<Rightarrow> (pystr, 'os) act" where
  "first_title self s =
     (case cls (heap s self) of
        Window \<Rightarrow> (Inl AttributeError, s)
      | _ \<Rightarrow>
          (case priv_first_title (heap s self) of
             None \<Rightarrow> (Inl AttributeError, s) | Some t \<Rightarrow> (Inr t, s)))"

text \<open>\<open>Window.__bool__\<close>.\<close>

definition Window_bool :: "'os User32 \<Rightarrow> nat \<Rightarrow> (bool, 'os) act" where
  "Window_bool u self =
     and_then (handler self) (\<lambda>h s.
       if h \<notin> set (dict_keys (handlers s)) then ret False s
       else and_then (handler self) (\<lambda>h'.
              os_call (Call_IsWindowEnabled h') (IsWindowEnabled u h')) s)"

text \<open>\<open>RecycleBinFolder.__bool__\<close>.\<close>

definition RecycleBinFolder_bool :: "'os User32 \<Rightarrow> nat \<Rightarrow> (bool, 'os) act" where
  "RecycleBinFolder_bool u self =
     and_then (Window_bool u self) (\<lambda>b.
       if \<not> b then ret False
       else and_then (handler self) (\<lambda>h.
            and_then (os_call (Call_GetWindowTextW h) (GetWindowTextW u h)) (\<lambda>t.
            and_then (first_title self) (\<lambda>ft. ret (t = ft)))))"

text \<open>\<open>Explorer.__bool__\<close>.\<close>

definition Explorer_bool :: "'os User32 \<Rightarrow> nat \<Rightarrow> (bool, 'os) act" where
  "Explorer_bool u self =
     and_then (Window_bool u self) (\<lambda>b.
       if \<not> b then ret False
       else and_then (allow_chdir self) (\<lambda>a.
         if a then ret True
         else and_then (handler self) (\<lambda>h.
              and_then (os_call (Call_GetWindowTextW h) (GetWindowTextW u h)) (\<lambda>t.
              and_then (first_title self) (\<lambda>ft. ret (t = ft))))))"

text \<open>
  Truth-value testing of an instance (\<open>if not self\<close>, \<open>while self\<close>, \<open>if not wd\<close>):
  the \<open>__bool__\<close> of the instance's class.
\<close>

definition truth :: "'os User32 \<Rightarrow> nat \<Rightarrow> (bool, 'os) act" where
  "truth u self s =
     (case cls (heap s self) of
        Window \<Rightarrow> Window_bool u self s
      | RecycleBinFolder \<Rightarrow> RecycleBinFolder_bool u self s
      | Explorer \<Rightarrow> Explorer_bool u self s)"

text \<open>
  \<open>Window.close\<close>: after a pause of 0.05 seconds (time is not modelled), send
  \<open>WM_CLOSE\<close> (\<open>0x0010\<close>), then delete the handle from \<open>Window.handlers\<close> if it is there.
\<close>

definition Window_close :: "'os User32 \<Rightarrow> nat \<Rightarrow> (int, 'os) act" where
  "Window_close u self =
     and_then (handler self) (\<lambda>h.
     and_then (os_call (Call_SendMessageW h 16 0 0) (SendMessageW u h 16 0 0)) (\<lambda>res s.
       if h \<in> set (dict_keys (handlers s))
       then (Inr res, s\<lparr>handlers := dict_delitem h (handlers s)\<rparr>)
       else (Inr res, s)))"

text \<open>
  \<open>Window.join\<close>: \<open>while self: time.sleep(span)\<close>, then \<open>self.close()\<close>. The loop has no
  bound; the model counts its iterations and returns \<open>None\<close> when the count runs out.
\<close>

fun Window_join :: "'os User32 \<Rightarrow> nat \<Rightarrow> nat \<Rightarrow> 'os world \<Rightarrow> ((error + unit) \<times> 'os world) option" where
  "Window_join u self 0 s = None"
| "Window_join u self (Suc k) s =
     (case truth u self s of
        (Inl e, s1) \<Rightarrow> Some (Inl e, s1)
      | (Inr alive, s1) \<Rightarrow>
          if alive then Window_join u self k s1
          else Some (and_then (Window_close u self) (\<lambda>r. ret ()) s1))"

text \<open>\<open>Window.move_window\<close>.\<close>

definition Window_move_window ::
  "'os User32 \<Rightarrow> nat \<Rightarrow> int \<Rightarrow> int \<Rightarrow> int \<Rightarrow> int \<Rightarrow> (bool, 'os) act" where
  "Window_move_window u self x y n_width n_height =
     and_then (truth u self) (\<lambda>alive.
       if \<not> alive then and_then (Window_close u self) (\<lambda>r. ret False)
       else and_then (handler self) (\<lambda>h.
              os_call (Call_MoveWindow h x y n_width n_height True)
                (MoveWindow u h x y n_width n_height True)))"

text \<open>
  \<open>Window.refresh\<close>: \<open>for wd in cls.handlers.values(): if not wd: cls.close(wd)\<close>.
  CPython's iterator over a dictionary view remembers the dictionary's size when it is
  created and compares it with the current size each time the next value is asked for,
  also the time that would end the loop; when they differ it raises \<open>RuntimeError\<close>
  (dictionary changed size during iteration). The body only ever deletes, so as long as
  the sizes agree the values still to come are those of the start.
\<close>

fun refresh_loop :: "'os User32 \<Rightarrow> nat \<Rightarrow> nat list \<Rightarrow> (unit, 'os) act" where
  "refresh_loop u used [] s =
     (if length (handlers s) \<noteq> used then (Inl RuntimeError, s) else (Inr (), s))"
| "refresh_loop u used (wd # rest) s =
     (if length (handlers s) \<noteq> used then (Inl RuntimeError, s)
      else
        (case truth u wd s of
           (Inl e, s1) \<Rightarrow> (Inl e, s1)
         | (Inr alive, s1) \<Rightarrow>
             if \<not> alive then
               (case Window_close u wd s1 of
                  (Inl e, s2) \<Rightarrow> (Inl e, s2)
                | (Inr r, s2) \<Rightarrow> refresh_loop u used rest s2)
             else refresh_loop u used rest s1))"

definition Window_refresh :: "'os User32 \<Rightarrow> (unit, 'os) act" where
  "Window_refresh u s = refresh_loop u (length (handlers s)) (dict_values (handlers s)) s"

text \<open>The properties \<open>rect\<close>, \<open>size\<close> and \<open>title\<close>.\<close>

definition Window_rect :: "'os User32 \<Rightarrow> nat \<Rightarrow> (int \<times> int \<times> int \<times> int, 'os) act" where
  "Window_rect u self =
     and_then (handler self) (\<lambda>h. os_call (Call_GetWindowRect h) (GetWindowRect u h))"

definition Window_size :: "'os User32 \<Rightarrow> nat \<Rightarrow> (int \<times> int, 'os) act" where
  "Window_size u self =
     and_then (truth u self) (\<lambda>alive.
       if \<not> alive then and_then (Window_close u self) (\<lambda>r. ret (- 1, - 1))
       else and_then (Window_rect u self) (\<lambda>(left, top, right, bottom).
              ret (\<bar>left - right\<bar>, \<bar>top - bottom\<bar>)))"

definition Window_title :: "'os User32 \<Rightarrow> nat \<Rightarrow> (pystr, 'os) act" where
  "Window_title u self =
     and_then (handler self) (\<lambda>h. os_call (Call_GetWindowTextW h) (GetWindowTextW u h))"

text \<open>\<open>Window.set_position\<close> and \<open>Window.set_size\<close>.\<close>

definition Window_set_position :: "'os User32 \<Rightarrow> nat \<Rightarrow> int \<Rightarrow> int \<Rightarrow> (bool, 'os) act" where
  "Window_set_position u self x y =
     and_then (truth u self) (\<lambda>alive.
       if \<not> alive then and_then (Window_close u self) (\<lambda>r. ret False)
       else and_then (Window_size u self) (\<lambda>(w, h).
            and_then (handler self) (\<lambda>hw.
              os_call (Call_MoveWindow hw x y w h True) (MoveWindow u hw x y w h True))))"

definition Window_set_size :: "'os User32 \<Rightarrow> nat \<Rightarrow> int \<Rightarrow> int \<Rightarrow> (bool, 'os) act" where
  "Window_set_size u self width height =
     and_then (truth u self) (\<lambda>alive.
       if \<not> alive then and_then (Window_close u self) (\<lambda>r. ret False)
       else and_then (Window_rect u self) (\<lambda>(x, y, right, bottom).
            and_then (handler self) (\<lambda>hw.
              os_call (Call_MoveWindow hw x y width height True)
                (MoveWindow u hw x y width height True))))"

subsection \<open>\<open>Window.__init__\<close>\<close>

text \<open>The message of the \<open>TimeoutError\<close>, an f-string around the title.\<close>

definition timeout_msg :: "pystr \<Rightarrow> pystr" where
  "timeout_msg title =
     [12454, 12451, 12531, 12489, 12454, 34] @ title @
     [34, 12398, 12495, 12531, 12489, 12523, 12434, 21462, 24471, 12391, 12365, 12414,
      12379, 12435, 12391, 12375, 12383, 12290]"

text \<open>\<open>handlers[hdlr] = self; self.__hdlr = hdlr; break\<close>.\<close>

definition register :: "nat \<Rightarrow> int \<Rightarrow> (unit, 'os) act" where
  "register self hdlr s =
     (Inr (), s\<lparr>handlers := dict_setitem hdlr self (handlers s),
                heap := (heap s)(self := (heap s self)\<lparr>priv_hdlr := Some hdlr\<rparr>)\<rparr>)"

text \<open>
  The \<open>Timer\<close> of otsutil is outside the sources at hand: the number of times
  \<open>Timer(seconds=timeout_seconds).wiggle_begin(span_seconds)\<close> yields before the time
  is over is the parameter \<open>ticks\<close>. The \<open>else\<close> of the \<open>for\<close> runs when the
  iteration ends without \<open>break\<close>.
\<close>

fun Window_init :: "'os User32 \<Rightarrow> nat \<Rightarrow> pystr \<Rightarrow> nat \<Rightarrow> (unit, 'os) act" where
  "Window_init u self title 0 s = (Inl (TimeoutError (timeout_msg title)), s)"
| "Window_init u self title (Suc ticks) s =
     (case os_query (Call_FindWindowExW title) (FindWindowExW u title) s of
        (hdlr, s1) \<Rightarrow>
          if hdlr \<noteq> 0 then
            if hdlr \<in> set (dict_keys (handlers s1)) then
              (case Window_refresh u s1 of
                 (Inl e, s2) \<Rightarrow> (Inl e, s2)
               | (Inr r, s2) \<Rightarrow>
                   if hdlr \<in> set (dict_keys (handlers s2))
                   then Window_init u self title ticks s2
                   else register self hdlr s2)
            else register self hdlr s1
          else Window_init u self title ticks s1)"

subsection \<open>Instance creation\<close>

text \<open>
  \<open>C(...)\<close> allocates an instance of \<open>C\<close> without attributes, runs \<open>C.__init__\<close> on it
  and evaluates to the instance; when \<open>__init__\<close> raises, no reference is handed out.
\<close>

definition alloc :: "wclass \<Rightarrow> (nat, 'os) act" where
  "alloc c s =
     (Inr (next_ref s),
      s\<lparr>heap := (heap s)(next_ref s :=
            \<lparr>cls = c, priv_hdlr = None, priv_allow_chdir = None, priv_first_title = None\<rparr>),
        next_ref := Suc (next_ref s)\<rparr>)"

definition new_Window :: "'os User32 \<Rightarrow> pystr \<Rightarrow> nat \<Rightarrow> (nat, 'os) act" where
  "new_Window u title ticks =
     and_then (alloc Window) (\<lambda>self.
     and_then (Window_init u self title ticks) (\<lambda>r. ret self))"

definition set_first_title :: "nat \<Rightarrow> pystr \<Rightarrow> (unit, 'os) act" where
  "set_first_title self t s =
     (Inr (), s\<lparr>heap := (heap s)(self := (heap s self)\<lparr>priv_first_title := Some t\<rparr>)\<rparr>)"

definition set_allow_chdir :: "nat \<Rightarrow> bool \<Rightarrow> (unit, 'os) act" where
  "set_allow_chdir self b s =
     (Inr (), s\<lparr>heap := (heap s)(self := (heap s self)\<lparr>priv_allow_chdir := Some b\<rparr>)\<rparr>)"

definition popen :: "'os launcher \<Rightarrow> pystr list \<Rightarrow> (unit, 'os) act" where
  "popen l args s = (Inr (), s\<lparr>os := Popen_wait l args (os s), calls := calls s @ [Call_Popen args]\<rparr>)"

definition validate :: "'os launcher \<Rightarrow> pystr \<Rightarrow> (pystr, 'os) act" where
  "validate l path s = (case CPath_validate l path (os s) of (r, o') \<Rightarrow> (r, s\<lparr>os := o'\<rparr>))"

text \<open>\<open>RecycleBinFolder.__init__\<close>.\<close>

definition RecycleBinFolder_init :: "'os User32 \<Rightarrow> 'os launcher \<Rightarrow> nat \<Rightarrow> nat \<Rightarrow> (unit, 'os) act" where
  "RecycleBinFolder_init u l self ticks =
     and_then (set_first_title self [12372, 12415, 31665]) (\<lambda>r.
     and_then (popen l [str ''explorer'', str ''shell:RecycleBinFolder'']) (\<lambda>r.
     and_then (first_title self) (\<lambda>t. Window_init u self t ticks)))"

definition new_RecycleBinFolder :: "'os User32 \<Rightarrow> 'os launcher \<Rightarrow> nat \<Rightarrow> (nat, 'os) act" where
  "new_RecycleBinFolder u l ticks =
     and_then (alloc RecycleBinFolder) (\<lambda>self.
     and_then (RecycleBinFolder_init u l self ticks) (\<lambda>r. ret self))"

text \<open>
  \<open>Explorer.__init__\<close>. \<open>title if title else path.name\<close>: \<open>None\<close> and the empty string
  are both false.
\<close>

definition Explorer_init ::
  "'os User32 \<Rightarrow> 'os launcher \<Rightarrow> nat \<Rightarrow> pystr \<Rightarrow> bool \<Rightarrow> nat \<Rightarrow> pystr option \<Rightarrow> (unit, 'os) act" where
  "Explorer_init u l self path allow ticks title =
     and_then (validate l path) (\<lambda>p.
     and_then (popen l [str ''explorer'', p]) (\<lambda>r.
     and_then (Window_init u self
                 (case title of None \<Rightarrow> Path_name l p
                  | Some t \<Rightarrow> if t \<noteq> [] then t else Path_name l p) ticks) (\<lambda>r.
     and_then (set_allow_chdir self allow) (\<lambda>r.
     and_then (Window_title u self) (\<lambda>t. set_first_title self t)))))"

definition new_Explorer ::
  "'os User32 \<Rightarrow> 'os launcher \<Rightarrow> pystr \<Rightarrow> bool \<Rightarrow> nat \<Rightarrow> pystr option \<Rightarrow> (nat, 'os) act" where
  "new_Explorer u l path allow ticks title =
     and_then (alloc Explorer) (\<lambda>self.
     and_then (Explorer_init u l self path allow ticks title) (\<lambda>r. ret self))"

section \<open>What a call may change\<close>

text \<open>
  \<open>frame s s'\<close>: from \<open>s\<close> to \<open>s'\<close> entries of \<open>Window.handlers\<close> were at most deleted
  (what is left is in the old order), and no instance was created or changed.
\<close>

definition frame :: "'os world \<Rightarrow> 'os world \<Rightarrow> bool" where
  "frame s s' \<longleftrightarrow>
     subseq (handlers s') (handlers s) \<and> heap s' = heap s \<and> next_ref s' = next_ref s"

definition framed :: "('a, 'os) act \<Rightarrow> bool" where
  "framed m \<longleftrightarrow> (\<forall>s. frame s (snd (m s)))"

text \<open>The calls to the operating system made from \<open>s\<close> to \<open>s'\<close>.\<close>

definition calls_since :: "'os world \<Rightarrow> 'os world \<Rightarrow> call list" where
  "calls_since s s' = drop (length (calls s)) (calls s')"

text \<open>\<open>emits P m\<close>: \<open>m\<close> only adds calls to the record, and each one satisfies \<open>P\<close>.\<close>

definition emits :: "(call \<Rightarrow> bool) \<Rightarrow> ('a, 'os) act \<Rightarrow> bool" where
  "emits P m \<longleftrightarrow> (\<forall>s. \<exists>cs. calls (snd (m s)) = calls s @ cs \<and> list_all P cs)"

fun is_liveness_query :: "call \<Rightarrow> bool" where
  "is_liveness_query (Call_IsWindowEnabled h) = True"
| "is_liveness_query (Call_GetWindowTextW h) = True"
| "is_liveness_query c = False"

text \<open>\<open>preserves I m\<close>: when \<open>I\<close> holds before \<open>m\<close>, it holds after it.\<close>

definition preserves :: "('os world \<Rightarrow> bool) \<Rightarrow> ('a, 'os) act \<Rightarrow> bool" where
  "preserves I m \<longleftrightarrow> (\<forall>s. I s \<longrightarrow> I (snd (m s)))"

text \<open>\<open>touches_only self m\<close>: \<open>m\<close> changes no instance other than \<open>self\<close>.\<close>

definition touches_only :: "nat \<Rightarrow> ('a, 'os) act \<Rightarrow> bool" where
  "touches_only self m \<longleftrightarrow> (\<forall>s w. w \<noteq> self \<longrightarrow> heap (snd (m s)) w = heap s w)"

subsection \<open>Programs that use the module\<close>

text \<open>
  One step of a client on instances that exist: a method or a property of the module
  (the properties \<open>handler\<close>, \<open>allow_chdir\<close> and \<open>first_title\<close> only read an attribute
  and leave the world as it is), or a change of the operating system by itself. The
  constructors are not among these steps.
\<close>

inductive method_step :: "'os User32 \<Rightarrow> 'os world \<Rightarrow> 'os world \<Rightarrow> bool" for u where
  os_changes: "method_step u s (s\<lparr>os := o'\<rparr>)"
| by_bool: "truth u self s = (b, s') \<Longrightarrow> method_step u s s'"
| by_close: "Window_close u self s = (res, s') \<Longrightarrow> method_step u s s'"
| by_join: "Window_join u self k s = Some (r, s') \<Longrightarrow> method_step u s s'"
| by_move_window: "Window_move_window u self x y w h s = (b, s') \<Longrightarrow> method_step u s s'"
| by_refresh: "Window_refresh u s = (r, s') \<Longrightarrow> method_step u s s'"
| by_set_position: "Window_set_position u self x y s = (b, s') \<Longrightarrow> method_step u s s'"
| by_set_size: "Window_set_size u self w h s = (b, s') \<Longrightarrow> method_step u s s'"
| by_rect: "Window_rect u self s = (rc, s') \<Longrightarrow> method_step u s s'"
| by_size: "Window_size u self s = (sz, s') \<Longrightarrow> method_step u s s'"
| by_title: "Window_title u self s = (t, s') \<Longrightarrow> method_step u s s'"

text \<open>
  The worlds a program can reach: it starts with \<open>Window.handlers\<close> empty, creates
  instances of the three classes (a constructor that raises leaves its effects behind)
  and takes steps.
\<close>

inductive reachable :: "'os User32 \<Rightarrow> 'os launcher \<Rightarrow> 'os world \<Rightarrow> bool" for u l where
  start: "handlers s = [] \<Longrightarrow> reachable u l s"
| step: "reachable u l s \<Longrightarrow> method_step u s s' \<Longrightarrow> reachable u l s'"
| create_Window:
    "reachable u l s \<Longrightarrow> new_Window u title ticks s = (r, s') \<Longrightarrow> reachable u l s'"
| create_RecycleBinFolder:
    "reachable u l s \<Longrightarrow> new_RecycleBinFolder u l ticks s = (r, s') \<Longrightarrow> reachable u l s'"
| create_Explorer:
    "reachable u l s \<Longrightarrow> new_Explorer u l path allow ticks title s = (r, s') \<Longrightarrow> reachable u l s'"

text \<open>
  Every one of the \<open>ticks\<close> attempts of \<open>Window.__init__\<close> is a non-match: the
  operating system answers 0, or a handle that is in \<open>Window.handlers\<close> and is still
  there after \<open>Window.refresh()\<close> has returned.
\<close>

fun never_acquires :: "'os User32 \<Rightarrow> pystr \<Rightarrow> nat \<Rightarrow> 'os world \<Rightarrow> bool" where
  "never_acquires u title 0 s = True"
| "never_acquires u title (Suc ticks) s =
     (case os_query (Call_FindWindowExW title) (FindWindowExW u title) s of
        (hdlr, s1) \<Rightarrow>
          if hdlr = 0 then never_acquires u title ticks s1
          else hdlr \<in> set (dict_keys (handlers s1)) \<and>
            (case Window_refresh u s1 of
               (Inl e, s2) \<Rightarrow> False
             | (Inr r, s2) \<Rightarrow>
                 hdlr \<in> set (dict_keys (handlers s2)) \<and> never_acquires u title ticks s2))"

section \<open>A scripted operating system, for concrete runs\<close>

text \<open>
  The answers of \<open>FindWindowExW\<close> are read off a script, one per call, and 0 once the
  script is used up; a handle is enabled when it is in the list \<open>enabled\<close>; every window
  has the title \<open>Calc\<close> and the same rectangle; \<open>WM_CLOSE\<close> is answered with 0 and the
  window stays (an application may ignore the message); \<open>MoveWindow\<close> succeeds.
\<close>

record scripted_os =
  find_script :: "int list"
  enabled :: "int list"

definition scripted_User32 :: "scripted_os User32" where
  "scripted_User32 =
     \<lparr>FindWindowExW = (\<lambda>title o1.
          case find_script o1 of [] \<Rightarrow> (0, o1) | h # rest \<Rightarrow> (h, o1\<lparr>find_script := rest\<rparr>)),
      IsWindowEnabled = (\<lambda>h o1. (h \<in> set (enabled o1), o1)),
      SendMessageW = (\<lambda>h msg wp lp o1. (0, o1)),
      MoveWindow = (\<lambda>h x y w h' repaint o1. (True, o1)),
      GetWindowRect = (\<lambda>h o1. ((10, 20, 810, 620), o1)),
      GetWindowTextW = (\<lambda>h o1. (str ''Calc'', o1))\<rparr>"

definition scripted_launcher :: "scripted_os launcher" where
  "scripted_launcher =
     \<lparr>CPath_validate = (\<lambda>path o1. (Inr path, o1)),
      Path_name = (\<lambda>path. path),
      Popen_wait = (\<lambda>args o1. o1)\<rparr>"

text \<open>
  A constructed instance of a class with the given handle: an \<open>Explorer\<close> with
  \<open>allow_chdir\<close> false, the two subclasses with the first title \<open>Calc\<close>.
\<close>

definition instance_of :: "wclass \<Rightarrow> int \<Rightarrow> obj" where
  "instance_of c h =
     \<lparr>cls = c, priv_hdlr = Some h,
      priv_allow_chdir = (if c = Explorer then Some False else None),
      priv_first_title = (if c = Window then None else Some (str ''Calc''))\<rparr>"

text \<open>
  A world whose \<open>Window.handlers\<close> holds the given handles in this order, the handle at
  position \<open>i\<close> owned by instance \<open>i\<close> of class \<open>Window\<close>.
\<close>

definition scripted_world :: "int list \<Rightarrow> int list \<Rightarrow> int list \<Rightarrow> scripted_os world" where
  "scripted_world script en hs =
     \<lparr>os = \<lparr>find_script = script, enabled = en\<rparr>,
      handlers = zip hs [0 ..< length hs],
      heap = (\<lambda>i. instance_of Window (if i < length hs then hs ! i else 0)),
      next_ref = length hs,
      calls = []\<rparr>"

text \<open>
  A run of the scripted system: an instance is created for the window with handle 5 and
  closed; the window stays open and a second instance is created for it.
\<close>

abbreviation revival_start :: "scripted_os world" where
  "revival_start \<equiv> scripted_world [5, 5] [5] []"

abbreviation revival_created :: "scripted_os world" where
  "revival_created \<equiv> snd (new_Window scripted_User32 (str ''Calc'') 1 revival_start)"

abbreviation revival_closed :: "scripted_os world" where
  "revival_closed \<equiv> snd (Window_close scripted_User32 0 revival_created)"

abbreviation revival_again :: "scripted_os world" where
  "revival_again \<equiv> snd (new_Window scripted_User32 (str ''Calc'') 1 revival_closed)"

text \<open>The scripted system when no window ever matches the title.\<close>

definition no_window_User32 :: "scripted_os User32" where
  "no_window_User32 = scripted_User32\<lparr>FindWindowExW := (\<lambda>title o1. (0, o1))\<rparr>"

text \<open>
  The scripted system with a window whose title changes while it opens: it reads \<open>Old\<close>
  as long as the script of \<open>FindWindowExW\<close> has answers left and \<open>Docs\<close> afterwards.
\<close>

definition retitling_User32 :: "scripted_os User32" where
  "retitling_User32 =
     scripted_User32\<lparr>GetWindowTextW :=
       (\<lambda>h o1. (if find_script o1 = [] then str ''Docs'' else str ''Old'', o1))\<rparr>"

section \<open>Lemmas\<close>

lemma frame_refl: "frame s s"
  by (simp add: frame_def)

lemma frame_trans: "frame s s1 \<Longrightarrow> frame s1 s2 \<Longrightarrow> frame s s2"
  unfolding frame_def by (metis subseq_order.order_trans)

lemma framedD: "framed m \<Longrightarrow> m s = (r, s') \<Longrightarrow> frame s s'"
  unfolding framed_def by (metis snd_conv)

lemma framed_ret: "framed (ret a)"
  by (simp add: framed_def ret_def frame_refl)

lemma framed_handler: "framed (handler self)"
  by (simp add: framed_def handler_def frame_refl split: option.splits)

lemma framed_allow_chdir: "framed (allow_chdir self)"
  by (simp add: framed_def allow_chdir_def frame_refl split: option.splits wclass.splits)

lemma framed_first_title: "framed (first_title self)"
  by (simp add: framed_def first_title_def frame_refl split: option.splits wclass.splits)

lemma framed_os_call: "framed (os_call c f)"
  by (simp add: framed_def os_call_def os_query_def frame_def split: prod.splits)

lemma framed_and_then:
  assumes "framed m" and "\<And>a. framed (f a)"
  shows "framed (and_then m f)"
  unfolding framed_def
proof
  fix s
  obtain r s1 where m: "m s = (r, s1)" by (cases "m s")
  have f1: "frame s s1" using framedD[OF assms(1) m] .
  show "frame s (snd (and_then m f s))"
  proof (cases r)
    case (Inl e)
    with m f1 show ?thesis by (simp add: and_then_def)
  next
    case (Inr a)
    have "frame s1 (snd (f a s1))" using assms(2) by (simp add: framed_def)
    with m Inr f1 show ?thesis by (simp add: and_then_def frame_trans)
  qed
qed

lemma framed_if: "framed m \<Longrightarrow> framed n \<Longrightarrow> framed (if b then m else n)"
  by simp

lemmas act_defs = and_then_def ret_def os_call_def os_query_def handler_def
  allow_chdir_def first_title_def

lemma subseq_dict_delitem: "subseq (dict_delitem k d) d"
  by (simp add: dict_delitem_def)

lemma framed_Window_bool: "framed (Window_bool u self)"
  by (simp add: framed_def Window_bool_def act_defs frame_def
      split: option.splits prod.splits)

lemma framed_Window_close: "framed (Window_close u self)"
  by (auto simp: framed_def Window_close_def act_defs frame_def subseq_dict_delitem
      split: option.splits prod.splits)

lemma framed_RecycleBinFolder_bool: "framed (RecycleBinFolder_bool u self)"
  unfolding RecycleBinFolder_bool_def
  by (intro framed_and_then framed_if framed_Window_bool framed_ret framed_handler
      framed_os_call framed_first_title)

lemma framed_Explorer_bool: "framed (Explorer_bool u self)"
  unfolding Explorer_bool_def
  by (intro framed_and_then framed_if framed_Window_bool framed_ret framed_handler
      framed_os_call framed_first_title framed_allow_chdir)

lemma framed_truth: "framed (truth u self)"
  using framed_Window_bool[of u self] framed_RecycleBinFolder_bool[of u self]
    framed_Explorer_bool[of u self]
  by (simp add: framed_def truth_def split: wclass.splits)

lemma framed_case_prod: "(\<And>a b. framed (f a b)) \<Longrightarrow> framed (case p of (a, b) \<Rightarrow> f a b)"
  by (cases p) simp

lemma framed_Window_rect: "framed (Window_rect u self)"
  unfolding Window_rect_def by (intro framed_and_then framed_handler framed_os_call)

lemma framed_Window_title: "framed (Window_title u self)"
  unfolding Window_title_def by (intro framed_and_then framed_handler framed_os_call)

lemma framed_Window_size: "framed (Window_size u self)"
  unfolding Window_size_def
  by (intro framed_and_then framed_if framed_truth framed_Window_close framed_ret
      framed_Window_rect framed_case_prod)

lemma framed_Window_move_window: "framed (Window_move_window u self x y w h)"
  unfolding Window_move_window_def
  by (intro framed_and_then framed_if framed_truth framed_Window_close framed_ret
      framed_handler framed_os_call)

lemma framed_Window_set_position: "framed (Window_set_position u self x y)"
  unfolding Window_set_position_def
  by (intro framed_and_then framed_if framed_truth framed_Window_close framed_ret
      framed_handler framed_os_call framed_Window_size framed_case_prod)

lemma framed_Window_set_size: "framed (Window_set_size u self w h)"
  unfolding Window_set_size_def
  by (intro framed_and_then framed_if framed_truth framed_Window_close framed_ret
      framed_handler framed_os_call framed_Window_rect framed_case_prod)

lemma frame_refresh_loop: "frame s (snd (refresh_loop u used wds s))"
proof (induction wds arbitrary: s)
  case Nil
  show ?case by (simp add: frame_refl)
next
  case (Cons wd rest)
  show ?case
  proof (cases "length (handlers s) \<noteq> used")
    case True
    then show ?thesis by (simp add: frame_refl)
  next
    case False
    obtain r s1 where t: "truth u wd s = (r, s1)" by (cases "truth u wd s")
    have f1: "frame s s1" using framedD[OF framed_truth t] .
    show ?thesis
    proof (cases r)
      case (Inl e)
      with False t f1 show ?thesis by simp
    next
      case (Inr alive)
      show ?thesis
      proof (cases alive)
        case True
        with False t Inr frame_trans[OF f1 Cons.IH[of s1]] show ?thesis by simp
      next
        case dead: False
        obtain r2 s2 where c: "Window_close u wd s1 = (r2, s2)"
          by (cases "Window_close u wd s1")
        have f2: "frame s s2" using frame_trans[OF f1 framedD[OF framed_Window_close c]] .
        show ?thesis
          using False t Inr dead c f2 frame_trans[OF f2 Cons.IH[of s2]]
          by (cases r2) simp_all
      qed
    qed
  qed
qed

lemma framed_Window_refresh: "framed (Window_refresh u)"
  by (simp add: framed_def Window_refresh_def frame_refresh_loop)

lemma frame_Window_join: "Window_join u self k s = Some (r, s') \<Longrightarrow> frame s s'"
proof (induction k arbitrary: s)
  case 0
  then show ?case by simp
next
  case (Suc k)
  obtain b s1 where t: "truth u self s = (b, s1)" by (cases "truth u self s")
  have f1: "frame s s1" using framedD[OF framed_truth t] .
  have fc: "framed (and_then (Window_close u self) (\<lambda>r. ret ()))"
    by (intro framed_and_then framed_Window_close framed_ret)
  show ?case
  proof (cases b)
    case (Inl e)
    with Suc.prems t f1 show ?thesis by simp
  next
    case (Inr alive)
    show ?thesis
    proof (cases alive)
      case True
      with Suc.prems t Inr have "Window_join u self k s1 = Some (r, s')" by simp
      from frame_trans[OF f1 Suc.IH[OF this]] show ?thesis .
    next
      case False
      with Suc.prems t Inr have "and_then (Window_close u self) (\<lambda>r. ret ()) s1 = (r, s')"
        by simp
      from frame_trans[OF f1 framedD[OF fc this]] show ?thesis .
    qed
  qed
qed


lemma subseq_set_mono: "subseq xs ys \<Longrightarrow> set xs \<subseteq> set ys"
  by (induction rule: list_emb.induct) auto

lemma subseq_distinct_mono: "subseq xs ys \<Longrightarrow> distinct ys \<Longrightarrow> distinct xs"
  by (induction rule: list_emb.induct) (auto dest: subseq_set_mono)

lemma frame_keys: "frame s s' \<Longrightarrow> set (dict_keys (handlers s')) \<subseteq> set (dict_keys (handlers s))"
  unfolding frame_def dict_keys_def by (metis subseq_map subseq_set_mono)

lemma frame_distinct:
  "frame s s' \<Longrightarrow> distinct (dict_keys (handlers s)) \<Longrightarrow> distinct (dict_keys (handlers s'))"
  unfolding frame_def dict_keys_def by (metis subseq_map subseq_distinct_mono)

lemma refresh_loop_ok_length:
  "refresh_loop u used wds s = (Inr r, s') \<Longrightarrow> length (handlers s') = used"
proof (induction wds arbitrary: s)
  case Nil
  then show ?case by (simp split: if_splits)
next
  case (Cons wd rest)
  then show ?case
    by (auto split: if_splits prod.splits sum.splits)
qed

lemma Window_refresh_ok_unchanged:
  assumes "Window_refresh u s = (Inr r, s')"
  shows "handlers s' = handlers s"
proof -
  have "frame s s'" using framedD[OF framed_Window_refresh assms] .
  then have "subseq (handlers s') (handlers s)" by (simp add: frame_def)
  moreover have "length (handlers s') = length (handlers s)"
    using assms refresh_loop_ok_length by (simp add: Window_refresh_def)
  ultimately show ?thesis by (rule subseq_same_length)
qed

lemma frame_os_query: "os_query c f s = (a, s1) \<Longrightarrow> frame s s1"
  by (auto simp: os_query_def frame_def split: prod.splits)

lemma Window_init_ok:
  "Window_init u self title ticks s = (Inr r, s') \<Longrightarrow>
     \<exists>h. h \<noteq> 0 \<and> h \<notin> set (dict_keys (handlers s)) \<and>
         handlers s' = handlers s @ [(h, self)] \<and>
         heap s' = (heap s)(self := (heap s self)\<lparr>priv_hdlr := Some h\<rparr>) \<and>
         next_ref s' = next_ref s"
proof (induction ticks arbitrary: s)
  case 0
  then show ?case by simp
next
  case (Suc ticks)
  obtain hdlr s1 where q: "os_query (Call_FindWindowExW title) (FindWindowExW u title) s = (hdlr, s1)"
    by (cases "os_query (Call_FindWindowExW title) (FindWindowExW u title) s")
  have s1: "handlers s1 = handlers s" "heap s1 = heap s" "next_ref s1 = next_ref s"
    using q by (auto simp: os_query_def split: prod.splits)
  show ?case
  proof (cases "hdlr = 0")
    case True
    with Suc.prems q have "Window_init u self title ticks s1 = (Inr r, s')" by simp
    from Suc.IH[OF this] show ?thesis unfolding s1 .
  next
    case nz: False
    show ?thesis
    proof (cases "hdlr \<in> set (dict_keys (handlers s1))")
      case False
      with Suc.prems q nz have "register self hdlr s1 = (Inr r, s')" by simp
      with False nz s1 show ?thesis
        by (auto simp: register_def dict_setitem_def)
    next
      case True
      obtain r2 s2 where rf: "Window_refresh u s1 = (r2, s2)" by (cases "Window_refresh u s1")
      show ?thesis
      proof (cases r2)
        case (Inl e)
        with Suc.prems q nz True rf show ?thesis by simp
      next
        case (Inr x)
        have same: "handlers s2 = handlers s1" using Window_refresh_ok_unchanged rf Inr by blast
        have fr: "frame s1 s2" using framedD[OF framed_Window_refresh rf] .
        from Suc.prems q nz True rf Inr same
        have "Window_init u self title ticks s2 = (Inr r, s')" by simp
        from Suc.IH[OF this] obtain h where h: "h \<noteq> 0" "h \<notin> set (dict_keys (handlers s2))"
          "handlers s' = handlers s2 @ [(h, self)]"
          "heap s' = (heap s2)(self := (heap s2 self)\<lparr>priv_hdlr := Some h\<rparr>)"
          "next_ref s' = next_ref s2" by blast
        have eqs: "handlers s2 = handlers s" "heap s2 = heap s" "next_ref s2 = next_ref s"
          using same s1 fr by (simp_all add: frame_def)
        show ?thesis using h unfolding eqs by (intro exI[of _ h]) simp
      qed
    qed
  qed
qed

lemma Window_init_err:
  "Window_init u self title ticks s = (Inl e, s') \<Longrightarrow> frame s s'"
proof (induction ticks arbitrary: s)
  case 0
  then show ?case by (simp add: frame_refl)
next
  case (Suc ticks)
  obtain hdlr s1 where q: "os_query (Call_FindWindowExW title) (FindWindowExW u title) s = (hdlr, s1)"
    by (cases "os_query (Call_FindWindowExW title) (FindWindowExW u title) s")
  have f1: "frame s s1" using frame_os_query[OF q] .
  show ?case
  proof (cases "hdlr = 0")
    case True
    with Suc.prems q have "Window_init u self title ticks s1 = (Inl e, s')" by simp
    from frame_trans[OF f1 Suc.IH[OF this]] show ?thesis .
  next
    case nz: False
    show ?thesis
    proof (cases "hdlr \<in> set (dict_keys (handlers s1))")
      case False
      with Suc.prems q nz show ?thesis by (simp add: register_def)
    next
      case True
      obtain r2 s2 where rf: "Window_refresh u s1 = (r2, s2)" by (cases "Window_refresh u s1")
      have f2: "frame s s2" using frame_trans[OF f1 framedD[OF framed_Window_refresh rf]] .
      show ?thesis
      proof (cases r2)
        case (Inl e2)
        with Suc.prems q nz True rf f2 show ?thesis by auto
      next
        case (Inr x)
        have same: "handlers s2 = handlers s1" using Window_refresh_ok_unchanged rf Inr by blast
        from Suc.prems q nz True rf Inr same
        have "Window_init u self title ticks s2 = (Inl e, s')" by simp
        from frame_trans[OF f2 Suc.IH[OF this]] show ?thesis .
      qed
    qed
  qed
qed

lemma emits_ret: "emits P (ret a)"
  by (simp add: emits_def ret_def)

lemma emits_handler: "emits P (handler self)"
  by (simp add: emits_def handler_def split: option.splits)

lemma emits_allow_chdir: "emits P (allow_chdir self)"
  by (simp add: emits_def allow_chdir_def split: option.splits wclass.splits)

lemma emits_first_title: "emits P (first_title self)"
  by (simp add: emits_def first_title_def split: option.splits wclass.splits)

lemma emits_os_call: "P c \<Longrightarrow> emits P (os_call c f)"
  by (simp add: emits_def os_call_def os_query_def split: prod.splits)

lemma emitsD: "emits P m \<Longrightarrow> m s = (r, s') \<Longrightarrow> \<exists>cs. calls s' = calls s @ cs \<and> list_all P cs"
  unfolding emits_def by (metis snd_conv)

lemma emits_and_then:
  assumes "emits P m" and "\<And>a. emits P (f a)"
  shows "emits P (and_then m f)"
  unfolding emits_def
proof
  fix s
  obtain r s1 where m: "m s = (r, s1)" by (cases "m s")
  from emitsD[OF assms(1) m] obtain cs where cs: "calls s1 = calls s @ cs" "list_all P cs"
    by blast
  show "\<exists>cs. calls (snd (and_then m f s)) = calls s @ cs \<and> list_all P cs"
  proof (cases r)
    case (Inl e)
    with m cs show ?thesis by (simp add: and_then_def)
  next
    case (Inr a)
    obtain r2 s2 where f: "f a s1 = (r2, s2)" by (cases "f a s1")
    from emitsD[OF assms(2) f] obtain ds where ds: "calls s2 = calls s1 @ ds" "list_all P ds"
      by blast
    have "calls s2 = calls s @ (cs @ ds)" "list_all P (cs @ ds)" using cs ds by simp_all
    with m Inr f show ?thesis unfolding and_then_def by auto
  qed
qed

lemma emits_if: "emits P m \<Longrightarrow> emits P n \<Longrightarrow> emits P (if b then m else n)"
  by simp

lemma emits_case_prod: "(\<And>a b. emits P (f a b)) \<Longrightarrow> emits P (case p of (a, b) \<Rightarrow> f a b)"
  by (cases p) simp

lemma emits_mono: "emits P m \<Longrightarrow> (\<And>c. P c \<Longrightarrow> Q c) \<Longrightarrow> emits Q m"
  unfolding emits_def by (metis (mono_tags, lifting) list_all_iff)

lemma emits_Window_bool: "P = is_liveness_query \<Longrightarrow> emits P (Window_bool u self)"
  by (simp add: emits_def Window_bool_def act_defs split: option.splits prod.splits)

lemma emits_truth: "emits is_liveness_query (truth u self)"
proof -
  have 1: "emits is_liveness_query (Window_bool u self)" by (simp add: emits_Window_bool)
  have 2: "emits is_liveness_query (RecycleBinFolder_bool u self)"
    unfolding RecycleBinFolder_bool_def
    by (intro emits_and_then emits_if 1 emits_ret emits_handler emits_os_call
        emits_first_title) simp
  have 3: "emits is_liveness_query (Explorer_bool u self)"
    unfolding Explorer_bool_def
    by (intro emits_and_then emits_if 1 emits_ret emits_handler emits_os_call
        emits_first_title emits_allow_chdir) simp
  show ?thesis using 1 2 3 by (simp add: emits_def truth_def split: wclass.splits)
qed

lemma emits_Window_close: "(\<And>h. P (Call_SendMessageW h 16 0 0)) \<Longrightarrow> emits P (Window_close u self)"
  by (auto simp: emits_def Window_close_def act_defs split: option.splits prod.splits)

lemma emits_refresh_loop:
  assumes P: "\<And>c. is_liveness_query c \<Longrightarrow> P c" "\<And>h. P (Call_SendMessageW h 16 0 0)"
  shows "\<exists>cs. calls (snd (refresh_loop u used wds s)) = calls s @ cs \<and> list_all P cs"
proof (induction wds arbitrary: s)
  case Nil
  show ?case by simp
next
  case (Cons wd rest)
  show ?case
  proof (cases "length (handlers s) \<noteq> used")
    case True
    then show ?thesis by simp
  next
    case False
    obtain r s1 where t: "truth u wd s = (r, s1)" by (cases "truth u wd s")
    have "emits P (truth u wd)" by (rule emits_mono[OF emits_truth]) (rule P(1))
    from emitsD[OF this t]
    obtain cs where cs: "calls s1 = calls s @ cs" "list_all P cs" by blast
    show ?thesis
    proof (cases r)
      case (Inl e)
      with False t cs show ?thesis by simp
    next
      case (Inr alive)
      show ?thesis
      proof (cases alive)
        case True
        from Cons.IH[of s1] obtain ds where
          ds: "calls (snd (refresh_loop u used rest s1)) = calls s @ (cs @ ds)" "list_all P (cs @ ds)"
          using cs by auto
        with False t Inr True show ?thesis by (simp del: append_assoc)
      next
        case dead: False
        obtain r2 s2 where c: "Window_close u wd s1 = (r2, s2)"
          by (cases "Window_close u wd s1")
        have "emits P (Window_close u wd)" by (rule emits_Window_close) (rule P(2))
        from emitsD[OF this c]
        obtain ds where ds: "calls s2 = calls s @ (cs @ ds)" "list_all P (cs @ ds)"
          using cs by auto
        show ?thesis
        proof (cases r2)
          case (Inl e)
          with False t Inr dead c ds show ?thesis by (simp del: append_assoc)
        next
          case r2: (Inr x)
          from Cons.IH[of s2] obtain es where
            es: "calls (snd (refresh_loop u used rest s2)) = calls s @ ((cs @ ds) @ es)"
              "list_all P ((cs @ ds) @ es)"
            using ds by auto
          with False t Inr dead c r2 show ?thesis by (simp del: append_assoc)
        qed
      qed
    qed
  qed
qed

lemma emits_Window_refresh:
  assumes "\<And>c. is_liveness_query c \<Longrightarrow> P c" "\<And>h. P (Call_SendMessageW h 16 0 0)"
  shows "emits P (Window_refresh u)"
  unfolding emits_def Window_refresh_def using emits_refresh_loop[of P, OF assms] by blast

lemmas run_defs = Window_refresh_def dict_values_def scripted_world_def truth_def
  Window_bool_def Window_close_def act_defs instance_of_def scripted_User32_def
  dict_keys_def dict_delitem_def dict_setitem_def register_def

lemma truth_handlers: "handlers (snd (truth u self s)) = handlers s"
  by (simp add: truth_def Window_bool_def RecycleBinFolder_bool_def Explorer_bool_def act_defs
      split_def split: wclass.splits option.splits)

lemma truth_heap: "heap (snd (truth u self s)) = heap s"
  using framed_truth[of u self] by (simp add: framed_def frame_def)

lemma truth_value_hdlr: "fst (truth u self s) = Inr b \<Longrightarrow> \<exists>hw. priv_hdlr (heap s self) = Some hw"
  by (cases "priv_hdlr (heap s self)")
    (simp_all add: truth_def Window_bool_def RecycleBinFolder_bool_def Explorer_bool_def
      and_then_def handler_def split: wclass.splits)

lemma dict_delitem_absent: "k \<notin> set (dict_keys d) \<Longrightarrow> dict_delitem k d = d"
  unfolding dict_delitem_def dict_keys_def by (induction d) auto

lemma dict_delitem_keys: "k \<notin> set (dict_keys (dict_delitem k d))"
  unfolding dict_delitem_def dict_keys_def by (induction d) auto

lemma Window_close_result:
  assumes "priv_hdlr (heap s self) = Some hw"
  shows "fst (Window_close u self s) = Inr (fst (SendMessageW u hw 16 0 0 (os s)))"
    and "calls (snd (Window_close u self s)) = calls s @ [Call_SendMessageW hw 16 0 0]"
    and "handlers (snd (Window_close u self s)) = dict_delitem hw (handlers s)"
    and "os (snd (Window_close u self s)) = snd (SendMessageW u hw 16 0 0 (os s))"
  using assms
  by (simp_all add: Window_close_def act_defs dict_delitem_absent split_def)

lemma dead_branch:
  assumes "fst (truth u self s) = Inr False"
  shows "and_then (truth u self)
           (\<lambda>alive. if \<not> alive then and_then (Window_close u self) (\<lambda>r. ret v) else k) s =
         (Inr v, snd (Window_close u self (snd (truth u self s))))"
proof -
  obtain s1 where t: "truth u self s = (Inr False, s1)"
    using assms by (cases "truth u self s") simp
  from truth_value_hdlr[OF assms] obtain hw where "priv_hdlr (heap s self) = Some hw" ..
  then have "priv_hdlr (heap s1 self) = Some hw" using truth_heap[of u self s] t by simp
  from Window_close_result(1)[OF this, of u] obtain res s2 where
    "Window_close u self s1 = (Inr res, s2)" by (cases "Window_close u self s1") auto
  with t show ?thesis by (simp add: and_then_def ret_def)
qed

lemma truth_calls:
  "\<exists>cs. calls (snd (truth u self s)) = calls s @ cs \<and> list_all is_liveness_query cs"
  using emits_truth[of u self] by (simp add: emits_def)

lemma calls_since_append: "calls s' = calls s @ cs \<Longrightarrow> calls_since s s' = cs"
  by (simp add: calls_since_def)

lemma dead_then_close:
  assumes "fst (truth u self s) = Inr False"
  shows "\<exists>hw. priv_hdlr (heap s self) = Some hw \<and>
           fst (truth u self (snd (Window_close u self (snd (truth u self s))))) = Inr False \<and>
           calls (snd (Window_close u self (snd (truth u self s)))) =
             calls (snd (truth u self s)) @ [Call_SendMessageW hw 16 0 0] \<and>
           handlers (snd (Window_close u self (snd (truth u self s)))) =
             dict_delitem hw (handlers s) \<and>
           hw \<notin> set (dict_keys (handlers (snd (Window_close u self (snd (truth u self s)))))) \<and>
           list_all is_liveness_query (calls_since s (snd (truth u self s)))"
proof -
  let ?s1 = "snd (truth u self s)"
  let ?s2 = "snd (Window_close u self ?s1)"
  from truth_value_hdlr[OF assms] obtain hw where hw: "priv_hdlr (heap s self) = Some hw" ..
  then have hw1: "priv_hdlr (heap ?s1 self) = Some hw" by (simp add: truth_heap)
  have c: "calls ?s2 = calls ?s1 @ [Call_SendMessageW hw 16 0 0]"
    and h: "handlers ?s2 = dict_delitem hw (handlers s)"
    using Window_close_result(2,3)[OF hw1, of u] by (simp_all add: truth_handlers)
  have gone: "hw \<notin> set (dict_keys (handlers ?s2))" by (simp add: h dict_delitem_keys)
  have "heap ?s2 = heap ?s1" using framed_Window_close[of u self] by (simp add: framed_def frame_def)
  then have hw2: "priv_hdlr (heap ?s2 self) = Some hw" using hw1 by simp
  have dead: "fst (truth u self ?s2) = Inr False"
    using hw2 gone
    by (simp add: truth_def Window_bool_def RecycleBinFolder_bool_def Explorer_bool_def
        and_then_def handler_def ret_def split: wclass.splits)
  from truth_calls[of u self s] obtain cs where
    "calls ?s1 = calls s @ cs" "list_all is_liveness_query cs" by blast
  then have "list_all is_liveness_query (calls_since s ?s1)" by (simp add: calls_since_append)
  with hw dead c h gone show ?thesis by blast
qed

lemma method_step_frame: "method_step u s s' \<Longrightarrow> frame s s'"
proof (induction rule: method_step.induct)
  case (os_changes s o')
  show ?case by (simp add: frame_def)
next
  case (by_join self k s r s')
  then show ?case by (rule frame_Window_join)
qed (erule framedD[rotated], rule framed_truth framed_Window_close framed_Window_move_window
      framed_Window_refresh framed_Window_set_position framed_Window_set_size
      framed_Window_rect framed_Window_size framed_Window_title)+

lemma method_steps_frame: "(method_step u)\<^sup>*\<^sup>* s s' \<Longrightarrow> frame s s'"
  by (induction rule: rtranclp_induct) (auto intro: frame_refl frame_trans method_step_frame)

lemma truth_unregistered:
  "priv_hdlr (heap s self) = Some h \<Longrightarrow> h \<notin> set (dict_keys (handlers s)) \<Longrightarrow>
   truth u self s = (Inr False, s)"
  by (simp add: truth_def Window_bool_def RecycleBinFolder_bool_def Explorer_bool_def
      and_then_def handler_def ret_def split: wclass.splits)

lemmas new_defs = new_Window_def alloc_def

lemma preserves_and_then:
  assumes "preserves I m" and "\<And>a. preserves I (f a)"
  shows "preserves I (and_then m f)"
  unfolding preserves_def
proof (intro allI impI)
  fix s assume I: "I s"
  obtain r s1 where m: "m s = (r, s1)" by (cases "m s")
  have I1: "I s1" using assms(1) I m by (auto simp: preserves_def dest: spec[of _ s])
  show "I (snd (and_then m f s))"
  proof (cases r)
    case (Inl e)
    with m I1 show ?thesis by (simp add: and_then_def)
  next
    case (Inr a)
    have "I (snd (f a s1))" using assms(2)[of a] I1 by (simp add: preserves_def)
    with m Inr show ?thesis by (simp add: and_then_def)
  qed
qed

lemma preserves_ret: "preserves I (ret a)"
  by (simp add: preserves_def ret_def)

lemma preserves_same_handlers:
  "(\<And>s. handlers (snd (m s)) = handlers s) \<Longrightarrow> preserves (\<lambda>s. P (handlers s)) m"
  by (simp add: preserves_def)

lemma preserves_framed:
  "framed m \<Longrightarrow> preserves (\<lambda>s. distinct (dict_keys (handlers s))) m"
  unfolding preserves_def framed_def by (blast intro: frame_distinct)

lemma preserves_Window_init:
  "preserves (\<lambda>s. distinct (dict_keys (handlers s))) (Window_init u self title ticks)"
  unfolding preserves_def
proof (intro allI impI)
  fix s :: "'a world"
  assume d: "distinct (dict_keys (handlers s))"
  obtain r s' where w: "Window_init u self title ticks s = (r, s')"
    by (cases "Window_init u self title ticks s")
  show "distinct (dict_keys (handlers (snd (Window_init u self title ticks s))))"
  proof (cases r)
    case (Inl e)
    with w have "frame s s'" using Window_init_err by blast
    with d w show ?thesis by (simp add: frame_distinct)
  next
    case (Inr x)
    with w Window_init_ok[of u self title ticks s x s'] d show ?thesis
      by (auto simp: dict_keys_def)
  qed
qed

lemma alloc_handlers: "handlers (snd (alloc c s)) = handlers s"
  by (simp add: alloc_def)

lemma set_first_title_handlers: "handlers (snd (set_first_title self t s)) = handlers s"
  by (simp add: set_first_title_def)

lemma set_allow_chdir_handlers: "handlers (snd (set_allow_chdir self b s)) = handlers s"
  by (simp add: set_allow_chdir_def)

lemma popen_handlers: "handlers (snd (popen l args s)) = handlers s"
  by (simp add: popen_def)

lemma validate_handlers: "handlers (snd (validate l path s)) = handlers s"
  by (simp add: validate_def split_def)

lemmas preserves_distinct_intros =
  preserves_and_then preserves_ret preserves_Window_init
  preserves_same_handlers[of "alloc c" for c, OF alloc_handlers]
  preserves_same_handlers[of "set_first_title self t" for self t, OF set_first_title_handlers]
  preserves_same_handlers[of "set_allow_chdir self b" for self b, OF set_allow_chdir_handlers]
  preserves_same_handlers[of "popen l args" for l args, OF popen_handlers]
  preserves_same_handlers[of "validate l path" for l path, OF validate_handlers]
  preserves_framed[OF framed_first_title] preserves_framed[OF framed_Window_title]

lemma preserves_new_Window:
  "preserves (\<lambda>s. distinct (dict_keys (handlers s))) (new_Window u title ticks)"
  unfolding new_Window_def by (intro preserves_distinct_intros)

lemma preserves_new_RecycleBinFolder:
  "preserves (\<lambda>s. distinct (dict_keys (handlers s))) (new_RecycleBinFolder u l ticks)"
  unfolding new_RecycleBinFolder_def RecycleBinFolder_init_def
  by (intro preserves_distinct_intros)

lemma preserves_new_Explorer:
  "preserves (\<lambda>s. distinct (dict_keys (handlers s))) (new_Explorer u l path allow ticks title)"
  unfolding new_Explorer_def Explorer_init_def
  by (intro preserves_distinct_intros)

lemma preservesD: "preserves I m \<Longrightarrow> I s \<Longrightarrow> m s = (r, s') \<Longrightarrow> I s'"
  unfolding preserves_def by (metis snd_conv)

lemma reachable_distinct: "reachable u l s \<Longrightarrow> distinct (dict_keys (handlers s))"
proof (induction rule: reachable.induct)
  case (start s)
  then show ?case by (simp add: dict_keys_def)
next
  case (step s s')
  then show ?case using frame_distinct[OF method_step_frame] by blast
next
  case (create_Window s title ticks r s')
  then show ?case using preservesD[OF preserves_new_Window] by blast
next
  case (create_RecycleBinFolder s ticks r s')
  then show ?case using preservesD[OF preserves_new_RecycleBinFolder] by blast
next
  case (create_Explorer s path allow ticks title r s')
  then show ?case using preservesD[OF preserves_new_Explorer] by blast
qed

lemma distinct_keys_one_value:
  "distinct (dict_keys d) \<Longrightarrow> (k, v1) \<in> set d \<Longrightarrow> (k, v2) \<in> set d \<Longrightarrow> v1 = v2"
  unfolding dict_keys_def by (rule eq_key_imp_eq_value)

lemma os_query_result:
  "os_query c f s = (a, s1) \<Longrightarrow>
     a = fst (f (os s)) \<and> handlers s1 = handlers s \<and> heap s1 = heap s \<and>
     calls s1 = calls s @ [c]"
  by (auto simp: os_query_def split: prod.splits)

lemma never_acquires_timeout:
  "never_acquires u title ticks s \<Longrightarrow>
     \<exists>s' cs. Window_init u self title ticks s = (Inl (TimeoutError (timeout_msg title)), s') \<and>
       handlers s' = handlers s \<and> heap s' = heap s \<and>
       calls s' = calls s @ cs \<and> length (filter is_FindWindowExW cs) = ticks"
proof (induction ticks arbitrary: s)
  case 0
  show ?case by simp
next
  case (Suc ticks)
  obtain hdlr s1 where q: "os_query (Call_FindWindowExW title) (FindWindowExW u title) s = (hdlr, s1)"
    by (cases "os_query (Call_FindWindowExW title) (FindWindowExW u title) s")
  from os_query_result[OF q] have s1: "handlers s1 = handlers s" "heap s1 = heap s"
    "calls s1 = calls s @ [Call_FindWindowExW title]" by simp_all
  show ?case
  proof (cases "hdlr = 0")
    case True
    with Suc.prems q have "never_acquires u title ticks s1" by simp
    from Suc.IH[OF this] obtain s' cs where
      r: "Window_init u self title ticks s1 = (Inl (TimeoutError (timeout_msg title)), s')"
      "handlers s' = handlers s1" "heap s' = heap s1" "calls s' = calls s1 @ cs"
      "length (filter is_FindWindowExW cs) = ticks" by blast
    have "calls s' = calls s @ (Call_FindWindowExW title # cs)"
      "length (filter is_FindWindowExW (Call_FindWindowExW title # cs)) = Suc ticks"
      using r s1 by simp_all
    moreover have "Window_init u self title (Suc ticks) s = (Inl (TimeoutError (timeout_msg title)), s')"
      using q True r(1) by simp
    ultimately show ?thesis using r(2,3) s1 by (metis (lifting))
  next
    case nz: False
    obtain r2 s2 where rf: "Window_refresh u s1 = (r2, s2)" by (cases "Window_refresh u s1")
    from Suc.prems q nz rf obtain x where
      in1: "hdlr \<in> set (dict_keys (handlers s1))" and r2: "r2 = Inr x"
      and in2: "hdlr \<in> set (dict_keys (handlers s2))" and na: "never_acquires u title ticks s2"
      by (cases r2) auto
    have fr: "frame s1 s2" using framedD[OF framed_Window_refresh rf] .
    have same: "handlers s2 = handlers s1" using Window_refresh_ok_unchanged rf r2 by blast
    have "emits (\<lambda>c. \<not> is_FindWindowExW c) (Window_refresh u)"
      by (rule emits_Window_refresh) (case_tac c, simp_all)
    from emitsD[OF this rf] obtain ds where
      ds: "calls s2 = calls s1 @ ds" "list_all (\<lambda>c. \<not> is_FindWindowExW c) ds" by blast
    then have nods: "filter is_FindWindowExW ds = []" by (simp add: list_all_iff)
    from Suc.IH[OF na] obtain s' cs where
      r: "Window_init u self title ticks s2 = (Inl (TimeoutError (timeout_msg title)), s')"
      "handlers s' = handlers s2" "heap s' = heap s2" "calls s' = calls s2 @ cs"
      "length (filter is_FindWindowExW cs) = ticks" by blast
    have "calls s' = calls s @ (Call_FindWindowExW title # ds @ cs)"
      "length (filter is_FindWindowExW (Call_FindWindowExW title # ds @ cs)) = Suc ticks"
      using r s1 ds nods by simp_all
    moreover have "Window_init u self title (Suc ticks) s = (Inl (TimeoutError (timeout_msg title)), s')"
      using q nz in1 rf r2 in2 r(1) by simp
    moreover have "handlers s' = handlers s" "heap s' = heap s"
      using r(2,3) same s1 fr by (simp_all add: frame_def)
    ultimately show ?thesis by (metis (lifting))
  qed
qed

lemma find_zero_never_acquires:
  assumes z: "\<forall>o1. fst (FindWindowExW u title o1) = 0"
  shows "never_acquires u title ticks s"
proof -
  have "\<forall>s. never_acquires u title ticks s"
  proof (induction ticks)
    case 0
    show ?case by simp
  next
    case (Suc ticks)
    show ?case
    proof
      fix s :: "'a world"
      obtain hdlr s1 where
        q: "os_query (Call_FindWindowExW title) (FindWindowExW u title) s = (hdlr, s1)"
        by (cases "os_query (Call_FindWindowExW title) (FindWindowExW u title) s")
      from os_query_result[OF q] z have "hdlr = 0" by simp
      with q Suc.IH show "never_acquires u title (Suc ticks) s" by simp
    qed
  qed
  then show ?thesis by simp
qed

lemma timeout_msg_inj: "timeout_msg t1 = timeout_msg t2 \<Longrightarrow> t1 = t2"
  by (simp add: timeout_msg_def)

lemma and_then_InrE:
  assumes "and_then m f s = (Inr b, s')"
  obtains a s1 where "m s = (Inr a, s1)" and "f a s1 = (Inr b, s')"
  using assms by (auto simp: and_then_def split: prod.splits sum.splits)

lemma touches_only_and_then:
  assumes "touches_only self m" and "\<And>a. touches_only self (f a)"
  shows "touches_only self (and_then m f)"
  unfolding touches_only_def
proof (intro allI impI)
  fix s w assume w: "w \<noteq> self"
  obtain r s1 where m: "m s = (r, s1)" by (cases "m s")
  have h1: "heap s1 w = heap s w" using assms(1) w m by (auto simp: touches_only_def dest: spec[of _ s])
  show "heap (snd (and_then m f s)) w = heap s w"
  proof (cases r)
    case (Inl e)
    with m h1 show ?thesis by (simp add: and_then_def)
  next
    case (Inr a)
    have "heap (snd (f a s1)) w = heap s1 w" using assms(2)[of a] w by (simp add: touches_only_def)
    with m Inr h1 show ?thesis by (simp add: and_then_def)
  qed
qed

lemma touches_only_framed: "framed m \<Longrightarrow> touches_only self m"
  by (simp add: touches_only_def framed_def frame_def)

lemma touches_only_ret: "touches_only self (ret a)"
  by (simp add: touches_only_def ret_def)

lemma touches_only_set_first_title: "touches_only self (set_first_title self t)"
  by (simp add: touches_only_def set_first_title_def)

lemma touches_only_set_allow_chdir: "touches_only self (set_allow_chdir self b)"
  by (simp add: touches_only_def set_allow_chdir_def)

lemma touches_only_popen: "touches_only self (popen l args)"
  by (simp add: touches_only_def popen_def)

lemma touches_only_validate: "touches_only self (validate l path)"
  by (simp add: touches_only_def validate_def split_def)

lemma touches_only_Window_init: "touches_only self (Window_init u self title ticks)"
  unfolding touches_only_def
proof (intro allI impI)
  fix s :: "'a world" and w assume w: "w \<noteq> self"
  obtain r s' where i: "Window_init u self title ticks s = (r, s')"
    by (cases "Window_init u self title ticks s")
  show "heap (snd (Window_init u self title ticks s)) w = heap s w"
  proof (cases r)
    case (Inl e)
    with i have "frame s s'" using Window_init_err by blast
    with i show ?thesis by (simp add: frame_def)
  next
    case (Inr x)
    with i Window_init_ok[of u self title ticks s x s'] w show ?thesis by auto
  qed
qed

lemmas touches_only_intros =
  touches_only_and_then touches_only_ret touches_only_set_first_title
  touches_only_set_allow_chdir touches_only_popen touches_only_validate
  touches_only_Window_init touches_only_framed[OF framed_first_title]
  touches_only_framed[OF framed_Window_title]

lemma new_other:
  assumes "\<And>self. touches_only self (body self)" and "w \<noteq> next_ref s"
  shows "heap (snd (and_then (alloc c) body s)) w = heap s w"
proof -
  have "heap (snd (body (next_ref s) (snd (alloc c s)))) w = heap (snd (alloc c s)) w"
    using assms by (simp add: touches_only_def)
  then show ?thesis using assms(2) by (simp add: and_then_def alloc_def)
qed

lemma new_Window_other:
  "w \<noteq> next_ref s \<Longrightarrow> heap (snd (new_Window u title ticks s)) w = heap s w"
  unfolding new_Window_def by (rule new_other) (intro touches_only_intros)

lemma new_RecycleBinFolder_other:
  "w \<noteq> next_ref s \<Longrightarrow> heap (snd (new_RecycleBinFolder u l ticks s)) w = heap s w"
  unfolding new_RecycleBinFolder_def RecycleBinFolder_init_def
  by (rule new_other) (intro touches_only_intros)

lemma new_Explorer_other:
  "w \<noteq> next_ref s \<Longrightarrow> heap (snd (new_Explorer u l path allow ticks title s)) w = heap s w"
  unfolding new_Explorer_def Explorer_init_def
  by (rule new_other) (intro touches_only_intros)

lemma new_Window_ok:
  assumes "new_Window u title ticks s = (Inr w, s')"
  shows "w = next_ref s \<and> cls (heap s' w) = Window \<and> priv_first_title (heap s' w) = None \<and>
         (\<exists>h. priv_hdlr (heap s' w) = Some h \<and> h \<notin> set (dict_keys (handlers s)) \<and>
              handlers s' = handlers s @ [(h, w)])"
proof -
  from assms[unfolded new_Window_def] obtain self sa where
    a: "alloc Window s = (Inr self, sa)"
    and b: "and_then (Window_init u self title ticks) (\<lambda>r. ret self) sa = (Inr w, s')"
    by (rule and_then_InrE)
  from b obtain r s1 where i: "Window_init u self title ticks sa = (Inr r, s1)"
    and e: "ret self s1 = (Inr w, s')" by (rule and_then_InrE)
  from a have sa: "self = next_ref s" "handlers sa = handlers s"
    "heap sa self = \<lparr>cls = Window, priv_hdlr = None, priv_allow_chdir = None, priv_first_title = None\<rparr>"
    by (auto simp: alloc_def)
  from e have w: "w = self" "s' = s1" by (simp_all add: ret_def)
  from Window_init_ok[OF i] obtain h where h: "h \<notin> set (dict_keys (handlers sa))"
    "handlers s1 = handlers sa @ [(h, self)]"
    "heap s1 = (heap sa)(self := (heap sa self)\<lparr>priv_hdlr := Some h\<rparr>)" by blast
  show ?thesis using sa w h by simp
qed

lemma new_RecycleBinFolder_ok:
  assumes "new_RecycleBinFolder u l ticks s = (Inr w, s')"
  shows "w = next_ref s \<and> cls (heap s' w) = RecycleBinFolder \<and>
         priv_first_title (heap s' w) = Some [12372, 12415, 31665] \<and>
         (\<exists>h. priv_hdlr (heap s' w) = Some h \<and> (h, w) \<in> set (handlers s'))"
proof -
  from assms[unfolded new_RecycleBinFolder_def] obtain self sa where
    a: "alloc RecycleBinFolder s = (Inr self, sa)"
    and b: "and_then (RecycleBinFolder_init u l self ticks) (\<lambda>r. ret self) sa = (Inr w, s')"
    by (rule and_then_InrE)
  from b obtain r s4 where i: "RecycleBinFolder_init u l self ticks sa = (Inr r, s4)"
    and e: "ret self s4 = (Inr w, s')" by (rule and_then_InrE)
  from e have w: "w = self" "s' = s4" by (simp_all add: ret_def)
  from i[unfolded RecycleBinFolder_init_def] obtain r1 s1 where
    c1: "set_first_title self [12372, 12415, 31665] sa = (Inr r1, s1)"
    and c2: "and_then (popen l [str ''explorer'', str ''shell:RecycleBinFolder''])
              (\<lambda>r. and_then (first_title self) (\<lambda>t. Window_init u self t ticks)) s1 = (Inr r, s4)"
    by (rule and_then_InrE)
  from c2 obtain r2 s2 where
    c3: "popen l [str ''explorer'', str ''shell:RecycleBinFolder''] s1 = (Inr r2, s2)"
    and c4: "and_then (first_title self) (\<lambda>t. Window_init u self t ticks) s2 = (Inr r, s4)"
    by (rule and_then_InrE)
  from c4 obtain t s3 where c5: "first_title self s2 = (Inr t, s3)"
    and c6: "Window_init u self t ticks s3 = (Inr r, s4)" by (rule and_then_InrE)
  from a have sa: "self = next_ref s"
    "heap sa self = \<lparr>cls = RecycleBinFolder, priv_hdlr = None, priv_allow_chdir = None, priv_first_title = None\<rparr>"
    by (auto simp: alloc_def)
  from c1 sa have h1: "heap s1 self = \<lparr>cls = RecycleBinFolder, priv_hdlr = None,
      priv_allow_chdir = None, priv_first_title = Some [12372, 12415, 31665]\<rparr>"
    by (auto simp: set_first_title_def)
  from c3 have h2: "heap s2 = heap s1" by (auto simp: popen_def)
  from c5 have h3: "heap s3 = heap s2" using framedD[OF framed_first_title c5] by (simp add: frame_def)
  from Window_init_ok[OF c6] obtain h where h: 
    "handlers s4 = handlers s3 @ [(h, self)]"
    "heap s4 = (heap s3)(self := (heap s3 self)\<lparr>priv_hdlr := Some h\<rparr>)" by blast
  show ?thesis using sa(1) w h h1 h2 h3 by simp
qed

lemma new_Explorer_ok:
  assumes "new_Explorer (u :: 'os User32) l path allow ticks title s = (Inr w, s')"
  shows "w = next_ref s \<and> cls (heap s' w) = Explorer \<and>
         priv_allow_chdir (heap s' w) = Some allow \<and>
         (\<exists>p (sv :: 'os world) (si :: 'os world) h.
            validate l path (snd (alloc Explorer s)) = (Inr p, sv) \<and>
            Window_init u w
              (case title of None \<Rightarrow> Path_name l p
               | Some t \<Rightarrow> if t \<noteq> [] then t else Path_name l p) ticks
              (snd (popen l [str ''explorer'', p] sv)) = (Inr (), si) \<and>
            h \<notin> set (dict_keys (handlers s)) \<and>
            handlers si = handlers s @ [(h, w)] \<and>
            priv_hdlr (heap si w) = Some h \<and>
            calls s' = calls si @ [Call_GetWindowTextW h] \<and>
            os s' = snd (GetWindowTextW u h (os si)) \<and>
            priv_first_title (heap s' w) = Some (fst (GetWindowTextW u h (os si))) \<and>
            priv_hdlr (heap s' w) = Some h \<and> handlers s' = handlers si)"
proof -
  from assms[unfolded new_Explorer_def] obtain self sa where
    a: "alloc Explorer s = (Inr self, sa)"
    and b: "and_then (Explorer_init u l self path allow ticks title) (\<lambda>r. ret self) sa = (Inr w, s')"
    by (rule and_then_InrE)
  from b obtain r s6 where i: "Explorer_init u l self path allow ticks title sa = (Inr r, s6)"
    and e: "ret self s6 = (Inr w, s')" by (rule and_then_InrE)
  from e have w: "w = self" "s' = s6" by (simp_all add: ret_def)
  from i[unfolded Explorer_init_def] obtain p s1 where
    c1: "validate l path sa = (Inr p, s1)"
    and d1: "and_then (popen l [str ''explorer'', p]) (\<lambda>r.
       and_then (Window_init u self
                 (case title of None \<Rightarrow> Path_name l p
                  | Some t \<Rightarrow> if t \<noteq> [] then t else Path_name l p) ticks) (\<lambda>r.
       and_then (set_allow_chdir self allow) (\<lambda>r.
       and_then (Window_title u self) (\<lambda>t. set_first_title self t)))) s1 = (Inr r, s6)"
    by (rule and_then_InrE)
  from d1 obtain r2 s2 where
    c2: "popen l [str ''explorer'', p] s1 = (Inr r2, s2)"
    and d2: "and_then (Window_init u self
                 (case title of None \<Rightarrow> Path_name l p
                  | Some t \<Rightarrow> if t \<noteq> [] then t else Path_name l p) ticks) (\<lambda>r.
       and_then (set_allow_chdir self allow) (\<lambda>r.
       and_then (Window_title u self) (\<lambda>t. set_first_title self t))) s2 = (Inr r, s6)"
    by (rule and_then_InrE)
  from d2 obtain r3 s3 where
    c3: "Window_init u self (case title of None \<Rightarrow> Path_name l p
                  | Some t \<Rightarrow> if t \<noteq> [] then t else Path_name l p) ticks s2 = (Inr r3, s3)"
    and d3: "and_then (set_allow_chdir self allow) (\<lambda>r.
       and_then (Window_title u self) (\<lambda>t. set_first_title self t)) s3 = (Inr r, s6)"
    by (rule and_then_InrE)
  from d3 obtain r4 s4 where c4: "set_allow_chdir self allow s3 = (Inr r4, s4)"
    and d4: "and_then (Window_title u self) (\<lambda>t. set_first_title self t) s4 = (Inr r, s6)"
    by (rule and_then_InrE)
  from d4 obtain t s5 where c5: "Window_title u self s4 = (Inr t, s5)"
    and c6: "set_first_title self t s5 = (Inr r, s6)" by (rule and_then_InrE)
  from a have sa: "self = next_ref s" "cls (heap sa self) = Explorer"
    by (auto simp: alloc_def)
  from c1 have h1: "heap s1 = heap sa" by (auto simp: validate_def split: prod.splits)
  from c2 have h2: "heap s2 = heap s1" by (auto simp: popen_def)
  from Window_init_ok[OF c3] obtain h where h:
    "handlers s3 = handlers s2 @ [(h, self)]"
    "heap s3 = (heap s2)(self := (heap s2 self)\<lparr>priv_hdlr := Some h\<rparr>)" by blast
  from c4 have s4: "handlers s4 = handlers s3"
    "heap s4 = (heap s3)(self := (heap s3 self)\<lparr>priv_allow_chdir := Some allow\<rparr>)"
    by (auto simp: set_allow_chdir_def)
  have hd4: "priv_hdlr (heap s4 self) = Some h" using s4 h by simp
  from c5 hd4 have s5: "t = fst (GetWindowTextW u h (os s4))"
    "calls s5 = calls s4 @ [Call_GetWindowTextW h]" "heap s5 = heap s4" "handlers s5 = handlers s4"
    by (auto simp: Window_title_def act_defs split: prod.splits)
  from c6 have s6: "handlers s6 = handlers s5" "calls s6 = calls s5"
    "heap s6 = (heap s5)(self := (heap s5 self)\<lparr>priv_first_title := Some t\<rparr>)"
    by (auto simp: set_first_title_def)
  from a have sa': "snd (alloc Explorer s) = sa" by simp
  from c2 have s2: "snd (popen l [str ''explorer'', p] s1) = s2" by simp
  have hs2: "handlers s2 = handlers s"
    using alloc_handlers[of Explorer s] validate_handlers[of l path sa]
      popen_handlers[of l "[str ''explorer'', p]" s1] sa' c1 s2 by simp
  from Window_init_ok[OF c3] obtain h' where h':
    "h' \<notin> set (dict_keys (handlers s2))" "handlers s3 = handlers s2 @ [(h', self)]" by blast
  with h(1) have "h' = h" by simp
  with h' hs2 have fresh: "h \<notin> set (dict_keys (handlers s))"
    and reg: "handlers s3 = handlers s @ [(h, self)]" by simp_all
  have hd3: "priv_hdlr (heap s3 self) = Some h" using h by simp
  from c4 have o4: "os s4 = os s3" "calls s4 = calls s3" by (auto simp: set_allow_chdir_def)
  from c5 hd4 have o5: "os s5 = snd (GetWindowTextW u h (os s4))"
    by (auto simp: Window_title_def act_defs split: prod.splits)
  from c6 have o6: "os s6 = os s5" by (auto simp: set_first_title_def)
  have i3: "Window_init u self
        (case title of None \<Rightarrow> Path_name l p
         | Some t \<Rightarrow> if t \<noteq> [] then t else Path_name l p) ticks
        (snd (popen l [str ''explorer'', p] s1)) = (Inr (), s3)"
    using c3 s2 by simp
  have v: "validate l path (snd (alloc Explorer s)) = (Inr p, s1)" using c1 sa' by simp
  have k1: "calls s6 = calls s3 @ [Call_GetWindowTextW h]" using s5 s6 o4 by simp
  have k2: "os s6 = snd (GetWindowTextW u h (os s3))" using o6 o5 o4 by simp
  have k3: "priv_first_title (heap s6 self) = Some (fst (GetWindowTextW u h (os s3)))"
    using s6 s5 o4 by simp
  have k4: "priv_hdlr (heap s6 self) = Some h" using s6 s5 hd4 by simp
  have k5: "handlers s6 = handlers s3" using s6 s5 s4 by simp
  from v i3 fresh reg hd3 k1 k2 k3 k4 k5
  have ex: "(\<exists>p (sv :: 'os world) (si :: 'os world) h.
      validate l path (snd (alloc Explorer s)) = (Inr p, sv) \<and>
      Window_init u self
        (case title of None \<Rightarrow> Path_name l p
         | Some t \<Rightarrow> if t \<noteq> [] then t else Path_name l p) ticks
        (snd (popen l [str ''explorer'', p] sv)) = (Inr (), si) \<and>
      h \<notin> set (dict_keys (handlers s)) \<and>
      handlers si = handlers s @ [(h, self)] \<and>
      priv_hdlr (heap si self) = Some h \<and>
      calls s6 = calls si @ [Call_GetWindowTextW h] \<and>
      os s6 = snd (GetWindowTextW u h (os si)) \<and>
      priv_first_title (heap s6 self) = Some (fst (GetWindowTextW u h (os si))) \<and>
      priv_hdlr (heap s6 self) = Some h \<and> handlers s6 = handlers si)"
    by blast
  have "cls (heap s6 self) = Explorer" "priv_allow_chdir (heap s6 self) = Some allow"
    using s6 s5 s4 h h2 h1 sa by simp_all
  with ex show ?thesis unfolding w using sa(1) by simp
qed

lemmas ctor_defs = new_Window_def new_RecycleBinFolder_def new_Explorer_def alloc_def
  RecycleBinFolder_init_def Explorer_init_def set_first_title_def set_allow_chdir_def
  popen_def validate_def scripted_launcher_def Window_title_def

section \<open>The claims\<close>

text \<open>
  C4. For an instance of the base class \<open>Window\<close>, the liveness check (its truth value)
  is true if and only if its handle is a key of \<open>Window.handlers\<close> and
  \<open>IsWindowEnabled\<close> answers true for that handle.
\<close>

theorem Window_liveness:
  "cls (heap s self) = Window \<Longrightarrow> priv_hdlr (heap s self) = Some h \<Longrightarrow>
   fst (truth u self s) =
     Inr (h \<in> set (dict_keys (handlers s)) \<and> fst (IsWindowEnabled u h (os s)))"
  by (simp add: truth_def Window_bool_def act_defs split: prod.splits)

theorem Window_liveness_witness:
  "cls (heap (scripted_world [] [7] [7]) 0) = Window \<and>
   priv_hdlr (heap (scripted_world [] [7] [7]) 0) = Some 7 \<and>
   fst (truth scripted_User32 0 (scripted_world [] [7] [7])) = Inr True \<and>
   fst (truth scripted_User32 0 (scripted_world [] [] [7])) = Inr False \<and>
   fst (truth scripted_User32 0 (scripted_world [] [7] [])) = Inr False"
  using Window_liveness[of "scripted_world [] [7] [7]" 0 7 scripted_User32]
    Window_liveness[of "scripted_world [] [] [7]" 0 7 scripted_User32]
    Window_liveness[of "scripted_world [] [7] []" 0 0 scripted_User32]
  by (simp add: scripted_world_def instance_of_def scripted_User32_def dict_keys_def)

text \<open>
  C8. For an instance of \<open>Explorer\<close>, the liveness check is true if and only if the
  core check holds (the handle is a key of \<open>Window.handlers\<close> and the window is
  enabled) and, in addition, \<open>allow_chdir\<close> was set at construction or the title the
  operating system reports now equals the title stored at construction.
\<close>

theorem Explorer_liveness:
  "cls (heap s self) = Explorer \<Longrightarrow> priv_hdlr (heap s self) = Some h \<Longrightarrow>
   priv_allow_chdir (heap s self) = Some a \<Longrightarrow> priv_first_title (heap s self) = Some ft \<Longrightarrow>
   fst (truth u self s) =
     Inr ((h \<in> set (dict_keys (handlers s)) \<and> fst (IsWindowEnabled u h (os s))) \<and>
          (a \<or> fst (GetWindowTextW u h (snd (IsWindowEnabled u h (os s)))) = ft))"
  by (simp add: truth_def Explorer_bool_def Window_bool_def act_defs split: prod.splits)

theorem Explorer_liveness_witness:
  "cls (heap ((scripted_world [] [7] [7])\<lparr>heap := (\<lambda>i. instance_of Explorer 7)\<rparr>) 0) = Explorer \<and>
   priv_hdlr (heap ((scripted_world [] [7] [7])\<lparr>heap := (\<lambda>i. instance_of Explorer 7)\<rparr>) 0) = Some 7 \<and>
   priv_allow_chdir (heap ((scripted_world [] [7] [7])\<lparr>heap := (\<lambda>i. instance_of Explorer 7)\<rparr>) 0)
     = Some False \<and>
   priv_first_title (heap ((scripted_world [] [7] [7])\<lparr>heap := (\<lambda>i. instance_of Explorer 7)\<rparr>) 0)
     = Some (str ''Calc'') \<and>
   fst (truth scripted_User32 0
          ((scripted_world [] [7] [7])\<lparr>heap := (\<lambda>i. instance_of Explorer 7)\<rparr>)) = Inr True \<and>
   fst (truth scripted_User32 0
          ((scripted_world [] [7] [7])\<lparr>heap := (\<lambda>i.
              \<lparr>cls = Explorer, priv_hdlr = Some 7, priv_allow_chdir = Some False,
               priv_first_title = Some (str ''Docs'')\<rparr>)\<rparr>)) = Inr False \<and>
   fst (truth scripted_User32 0
          ((scripted_world [] [7] [7])\<lparr>heap := (\<lambda>i.
              \<lparr>cls = Explorer, priv_hdlr = Some 7, priv_allow_chdir = Some True,
               priv_first_title = Some (str ''Docs'')\<rparr>)\<rparr>)) = Inr True"
  using Explorer_liveness[of "(scripted_world [] [7] [7])\<lparr>heap := (\<lambda>i. instance_of Explorer 7)\<rparr>"
      0 7 False "str ''Calc''" scripted_User32]
    Explorer_liveness[of "(scripted_world [] [7] [7])\<lparr>heap := (\<lambda>i.
              \<lparr>cls = Explorer, priv_hdlr = Some 7, priv_allow_chdir = Some False,
               priv_first_title = Some (str ''Docs'')\<rparr>)\<rparr>"
      0 7 False "str ''Docs''" scripted_User32]
    Explorer_liveness[of "(scripted_world [] [7] [7])\<lparr>heap := (\<lambda>i.
              \<lparr>cls = Explorer, priv_hdlr = Some 7, priv_allow_chdir = Some True,
               priv_first_title = Some (str ''Docs'')\<rparr>)\<rparr>"
      0 7 True "str ''Docs''" scripted_User32]
  by (simp add: scripted_world_def instance_of_def scripted_User32_def dict_keys_def str_def)

text \<open>
  C6. On an instance whose liveness check is false, \<open>move_window\<close>, \<open>set_position\<close>
  and \<open>set_size\<close> each run \<open>close\<close> (the close message is sent, the handle leaves
  \<open>Window.handlers\<close>) and return \<open>False\<close>; nothing is raised, and the only calls to the
  operating system are the liveness queries and the close message, so \<open>MoveWindow\<close> is not
  called. The instance is dead afterwards as well, and each operation returns \<open>False\<close> again.
\<close>

theorem dead_window_operations_fail:
  assumes "fst (truth u self s) = Inr False"
  shows "Window_move_window u self x y w h s =
           (Inr False, snd (Window_close u self (snd (truth u self s)))) \<and>
         Window_set_position u self x y s =
           (Inr False, snd (Window_close u self (snd (truth u self s)))) \<and>
         Window_set_size u self w h s =
           (Inr False, snd (Window_close u self (snd (truth u self s)))) \<and>
         (\<exists>hw. priv_hdlr (heap s self) = Some hw \<and>
            calls_since s (snd (Window_close u self (snd (truth u self s)))) =
              calls_since s (snd (truth u self s)) @ [Call_SendMessageW hw 16 0 0] \<and>
            handlers (snd (Window_close u self (snd (truth u self s)))) =
              dict_delitem hw (handlers s) \<and>
            hw \<notin> set (dict_keys (handlers (snd (Window_close u self (snd (truth u self s))))))) \<and>
         list_all (\<lambda>c. \<not> is_MoveWindow c)
           (calls_since s (snd (Window_close u self (snd (truth u self s))))) \<and>
         fst (Window_move_window u self x y w h
                (snd (Window_close u self (snd (truth u self s))))) = Inr False \<and>
         fst (Window_set_position u self x y
                (snd (Window_close u self (snd (truth u self s))))) = Inr False \<and>
         fst (Window_set_size u self w h
                (snd (Window_close u self (snd (truth u self s))))) = Inr False"
proof -
  let ?s1 = "snd (truth u self s)"
  let ?s2 = "snd (Window_close u self ?s1)"
  from dead_then_close[OF assms] obtain hw where
    hw: "priv_hdlr (heap s self) = Some hw"
    and dead: "fst (truth u self ?s2) = Inr False"
    and c: "calls ?s2 = calls ?s1 @ [Call_SendMessageW hw 16 0 0]"
    and h: "handlers ?s2 = dict_delitem hw (handlers s)"
    and gone: "hw \<notin> set (dict_keys (handlers ?s2))"
    and q: "list_all is_liveness_query (calls_since s ?s1)" by blast
  from truth_calls[of u self s] obtain cs where cs: "calls ?s1 = calls s @ cs" by blast
  have since: "calls_since s ?s2 = calls_since s ?s1 @ [Call_SendMessageW hw 16 0 0]"
    using c cs by (simp add: calls_since_def)
  have "\<And>c. is_liveness_query c \<Longrightarrow> \<not> is_MoveWindow c"
    by (case_tac c) simp_all
  then have nomove: "list_all (\<lambda>c. \<not> is_MoveWindow c) (calls_since s ?s2)"
    using q by (auto simp: since list_all_iff)
  have 1: "Window_move_window u self x y w h s = (Inr False, ?s2)"
    unfolding Window_move_window_def by (rule dead_branch[OF assms])
  have 2: "Window_set_position u self x y s = (Inr False, ?s2)"
    unfolding Window_set_position_def by (rule dead_branch[OF assms])
  have 3: "Window_set_size u self w h s = (Inr False, ?s2)"
    unfolding Window_set_size_def by (rule dead_branch[OF assms])
  have 4: "fst (Window_move_window u self x y w h ?s2) = Inr False"
    unfolding Window_move_window_def by (simp add: dead_branch[OF dead])
  have 5: "fst (Window_set_position u self x y ?s2) = Inr False"
    unfolding Window_set_position_def by (simp add: dead_branch[OF dead])
  have 6: "fst (Window_set_size u self w h ?s2) = Inr False"
    unfolding Window_set_size_def by (simp add: dead_branch[OF dead])
  from 1 2 3 4 5 6 hw since h gone nomove show ?thesis by blast
qed

theorem dead_window_operations_fail_witness:
  "fst (truth scripted_User32 0 (scripted_world [] [] [7])) = Inr False \<and>
   fst (Window_move_window scripted_User32 0 1 2 3 4 (scripted_world [] [] [7])) = Inr False \<and>
   fst (Window_set_position scripted_User32 0 1 2 (scripted_world [] [] [7])) = Inr False \<and>
   fst (Window_set_size scripted_User32 0 3 4 (scripted_world [] [] [7])) = Inr False \<and>
   handlers (snd (Window_move_window scripted_User32 0 1 2 3 4 (scripted_world [] [] [7]))) = [] \<and>
   calls (snd (Window_move_window scripted_User32 0 1 2 3 4 (scripted_world [] [] [7]))) =
     [Call_IsWindowEnabled 7, Call_SendMessageW 7 16 0 0]"
proof -
  have d: "fst (truth scripted_User32 0 (scripted_world [] [] [7])) = Inr False"
    by (simp add: run_defs)
  have s: "snd (truth scripted_User32 0 (scripted_world [] [] [7])) =
             (scripted_world [] [] [7])\<lparr>calls := [Call_IsWindowEnabled 7]\<rparr>"
    by (simp add: run_defs)
  have c: "handlers (snd (Window_close scripted_User32 0
              ((scripted_world [] [] [7])\<lparr>calls := [Call_IsWindowEnabled 7]\<rparr>))) = []"
      "calls (snd (Window_close scripted_User32 0
              ((scripted_world [] [] [7])\<lparr>calls := [Call_IsWindowEnabled 7]\<rparr>))) =
         [Call_IsWindowEnabled 7, Call_SendMessageW 7 16 0 0]"
    by (simp_all add: run_defs)
  from dead_window_operations_fail[OF d, of 1 2 3 4] d c show ?thesis
    by (simp add: s)
qed

text \<open>
  C10. The property \<open>size\<close> checks liveness first. On a dead instance it runs \<open>close\<close>
  and returns \<open>(-1, -1)\<close>, and \<open>GetWindowRect\<close> is not called; on a live instance it
  returns \<open>(|left - right|, |top - bottom|)\<close> of the rectangle the operating system
  reports.
\<close>

theorem size_of_window:
  "(fst (truth u self s) = Inr False \<longrightarrow>
      Window_size u self s = (Inr (- 1, - 1), snd (Window_close u self (snd (truth u self s)))) \<and>
      (\<exists>hw. priv_hdlr (heap s self) = Some hw \<and>
         calls_since s (snd (Window_close u self (snd (truth u self s)))) =
           calls_since s (snd (truth u self s)) @ [Call_SendMessageW hw 16 0 0] \<and>
         handlers (snd (Window_close u self (snd (truth u self s)))) =
           dict_delitem hw (handlers s)) \<and>
      list_all (\<lambda>c. \<not> is_GetWindowRect c)
        (calls_since s (snd (Window_close u self (snd (truth u self s)))))) \<and>
   (fst (truth u self s) = Inr True \<longrightarrow>
      (\<exists>hw. priv_hdlr (heap s self) = Some hw \<and>
         fst (Window_size u self s) =
           Inr (case fst (GetWindowRect u hw (os (snd (truth u self s)))) of
                  (left, upper, right, bottom) \<Rightarrow> (\<bar>left - right\<bar>, \<bar>upper - bottom\<bar>))))"
proof (intro conjI impI)
  assume dead: "fst (truth u self s) = Inr False"
  let ?s1 = "snd (truth u self s)"
  let ?s2 = "snd (Window_close u self ?s1)"
  show "Window_size u self s = (Inr (- 1, - 1), ?s2)"
    unfolding Window_size_def by (rule dead_branch[OF dead])
  from dead_then_close[OF dead] obtain hw where
    hw: "priv_hdlr (heap s self) = Some hw"
    and c: "calls ?s2 = calls ?s1 @ [Call_SendMessageW hw 16 0 0]"
    and h: "handlers ?s2 = dict_delitem hw (handlers s)"
    and q: "list_all is_liveness_query (calls_since s ?s1)" by blast
  from truth_calls[of u self s] obtain cs where cs: "calls ?s1 = calls s @ cs" by blast
  have since: "calls_since s ?s2 = calls_since s ?s1 @ [Call_SendMessageW hw 16 0 0]"
    using c cs by (simp add: calls_since_def)
  from hw since h show "\<exists>hw. priv_hdlr (heap s self) = Some hw \<and>
         calls_since s ?s2 = calls_since s ?s1 @ [Call_SendMessageW hw 16 0 0] \<and>
         handlers ?s2 = dict_delitem hw (handlers s)" by blast
  have "\<And>c. is_liveness_query c \<Longrightarrow> \<not> is_GetWindowRect c"
    by (case_tac c) simp_all
  then show "list_all (\<lambda>c. \<not> is_GetWindowRect c) (calls_since s ?s2)"
    using q by (auto simp: since list_all_iff)
next
  assume live: "fst (truth u self s) = Inr True"
  let ?s1 = "snd (truth u self s)"
  from truth_value_hdlr[OF live] obtain hw where hw: "priv_hdlr (heap s self) = Some hw" ..
  then have hw1: "priv_hdlr (heap ?s1 self) = Some hw" by (simp add: truth_heap)
  obtain s1 where t: "truth u self s = (Inr True, s1)"
    using live by (cases "truth u self s") simp
  have "fst (Window_size u self s) =
          Inr (case fst (GetWindowRect u hw (os ?s1)) of
                 (left, upper, right, bottom) \<Rightarrow> (\<bar>left - right\<bar>, \<bar>upper - bottom\<bar>))"
    using hw1 t
    by (simp add: Window_size_def Window_rect_def act_defs split_def)
  with hw show "\<exists>hw. priv_hdlr (heap s self) = Some hw \<and>
         fst (Window_size u self s) =
           Inr (case fst (GetWindowRect u hw (os ?s1)) of
                  (left, upper, right, bottom) \<Rightarrow> (\<bar>left - right\<bar>, \<bar>upper - bottom\<bar>))" by blast
qed

theorem size_of_window_witness:
  "fst (truth scripted_User32 0 (scripted_world [] [] [7])) = Inr False \<and>
   fst (Window_size scripted_User32 0 (scripted_world [] [] [7])) = Inr (- 1, - 1) \<and>
   fst (truth scripted_User32 0 (scripted_world [] [7] [7])) = Inr True \<and>
   fst (Window_size scripted_User32 0 (scripted_world [] [7] [7])) = Inr (800, 600)"
proof -
  have d: "fst (truth scripted_User32 0 (scripted_world [] [] [7])) = Inr False"
    by (simp add: run_defs)
  have l: "fst (truth scripted_User32 0 (scripted_world [] [7] [7])) = Inr True"
    by (simp add: run_defs)
  have h: "priv_hdlr (heap (scripted_world [] [7] [7]) 0) = Some 7"
    by (simp add: run_defs)
  have r: "fst (GetWindowRect scripted_User32 7
             (os (snd (truth scripted_User32 0 (scripted_world [] [7] [7]))))) =
           (10, 20, 810, 620)"
    by (simp add: scripted_User32_def)
  from size_of_window[of scripted_User32 0 "scripted_world [] [] [7]"]
    size_of_window[of scripted_User32 0 "scripted_world [] [7] [7]"] d l h r
  show ?thesis by auto
qed

text \<open>
  C7 (the code departs from the claim). \<open>Window.refresh\<close> deletes from
  \<open>Window.handlers\<close> while it iterates over the dictionary's values. With one registered
  window that is not enabled, the entry is removed and \<open>RuntimeError\<close> is raised; with
  two such windows the first entry is removed, \<open>RuntimeError\<close> is raised, and the second
  entry stays.
\<close>

theorem refresh_raises_after_eviction:
  "fst (Window_refresh scripted_User32 (scripted_world [] [] [1])) = Inl RuntimeError \<and>
   handlers (snd (Window_refresh scripted_User32 (scripted_world [] [] [1]))) = [] \<and>
   fst (Window_refresh scripted_User32 (scripted_world [] [] [1, 2])) = Inl RuntimeError \<and>
   handlers (snd (Window_refresh scripted_User32 (scripted_world [] [] [1, 2]))) = [(2, 1)] \<and>
   calls (snd (Window_refresh scripted_User32 (scripted_world [] [] [1, 2]))) =
     [Call_IsWindowEnabled 1, Call_SendMessageW 1 16 0 0]"
  by (simp add: run_defs)

text \<open>
  C2 (the code departs from the claim). \<open>Window.handlers\<close> holds handle 1 (its window
  is not enabled) and handle 2 (enabled), and the operating system finds handle 2 for the
  title. The constructor calls \<open>Window.refresh()\<close>, which removes handle 1 and raises
  \<open>RuntimeError\<close>: handle 2 is still registered, but the constructor ends after one
  attempt out of three with that exception.
\<close>

theorem init_aborts_on_collision:
  "fst (new_Window scripted_User32 (str ''Calc'') 3 (scripted_world [2, 2, 2] [2] [1, 2])) =
     Inl RuntimeError \<and>
   handlers (snd (new_Window scripted_User32 (str ''Calc'') 3
                    (scripted_world [2, 2, 2] [2] [1, 2]))) = [(2, 1)] \<and>
   calls (snd (new_Window scripted_User32 (str ''Calc'') 3
                 (scripted_world [2, 2, 2] [2] [1, 2]))) =
     [Call_FindWindowExW (str ''Calc''), Call_IsWindowEnabled 1, Call_SendMessageW 1 16 0 0]"
  by (simp add: run_defs new_defs numeral_3_eq_3)

text \<open>
  C5, as stated, fails: after instance 0 has been closed, a second instance is created
  for the same handle 5, and the liveness check of instance 0 is true again.
\<close>

theorem closed_instance_alive_again:
  "fst (new_Window scripted_User32 (str ''Calc'') 1 revival_start) = Inr 0 \<and>
   handlers revival_created = [(5, 0)] \<and>
   handlers revival_closed = [] \<and>
   fst (truth scripted_User32 0 revival_closed) = Inr False \<and>
   fst (new_Window scripted_User32 (str ''Calc'') 1 revival_closed) = Inr 1 \<and>
   handlers revival_again = [(5, 1)] \<and>
   fst (truth scripted_User32 0 revival_again) = Inr True"
  by (simp add: run_defs new_defs)

text \<open>
  C5, amended. \<open>close\<close> leaves the instance's handle absent from \<open>Window.handlers\<close>.
  Once the handle is absent, it stays absent through any sequence of methods,
  properties, reconciliations and changes of the operating system, the instance keeps
  its handle, and its liveness check is false: only a constructor inserts into
  \<open>Window.handlers\<close>, so the instance never registers itself again.
\<close>

theorem unregistered_handle_stays_dead:
  "priv_hdlr (heap s self) = Some h \<Longrightarrow>
   h \<notin> set (dict_keys (handlers (snd (Window_close u self s)))) \<and>
   (h \<notin> set (dict_keys (handlers s)) \<longrightarrow> (method_step u)\<^sup>*\<^sup>* s s' \<longrightarrow>
      fst (truth u self s') = Inr False \<and>
      h \<notin> set (dict_keys (handlers s')) \<and>
      priv_hdlr (heap s' self) = Some h)"
proof (intro conjI impI)
  assume hw: "priv_hdlr (heap s self) = Some h"
  show "h \<notin> set (dict_keys (handlers (snd (Window_close u self s))))"
    using Window_close_result(3)[OF hw, of u] by (simp add: dict_delitem_keys)
  assume absent: "h \<notin> set (dict_keys (handlers s))" and steps: "(method_step u)\<^sup>*\<^sup>* s s'"
  have fr: "frame s s'" using method_steps_frame[OF steps] .
  show gone: "h \<notin> set (dict_keys (handlers s'))" using frame_keys[OF fr] absent by blast
  show kept: "priv_hdlr (heap s' self) = Some h" using fr hw by (simp add: frame_def)
  show "fst (truth u self s') = Inr False" using truth_unregistered[OF kept gone] by simp
qed

theorem unregistered_handle_stays_dead_witness:
  "priv_hdlr (heap (scripted_world [] [7] [7]) 0) = Some 7 \<and>
   7 \<notin> set (dict_keys (handlers (snd (Window_close scripted_User32 0 (scripted_world [] [7] [7]))))) \<and>
   (method_step scripted_User32)\<^sup>*\<^sup>*
      (snd (Window_close scripted_User32 0 (scripted_world [] [7] [7])))
      (snd (Window_refresh scripted_User32
         (snd (Window_close scripted_User32 0 (scripted_world [] [7] [7]))))) \<and>
   fst (truth scripted_User32 0
      (snd (Window_refresh scripted_User32
         (snd (Window_close scripted_User32 0 (scripted_world [] [7] [7])))))) = Inr False"
proof -
  let ?s = "snd (Window_close scripted_User32 0 (scripted_world [] [7] [7]))"
  let ?s' = "snd (Window_refresh scripted_User32 ?s)"
  have h0: "priv_hdlr (heap (scripted_world [] [7] [7]) 0) = Some 7" by (simp add: run_defs)
  have h: "priv_hdlr (heap ?s 0) = Some 7" by (simp add: run_defs)
  have a: "7 \<notin> set (dict_keys (handlers ?s))" by (simp add: run_defs)
  have "method_step scripted_User32 ?s ?s'"
    by (rule by_refresh[of _ _ "fst (Window_refresh scripted_User32 ?s)"]) simp
  then have st: "(method_step scripted_User32)\<^sup>*\<^sup>* ?s ?s'" by (rule r_into_rtranclp)
  from unregistered_handle_stays_dead[OF h, of scripted_User32 ?s'] a st h0
  show ?thesis by blast
qed

text \<open>
  C1. In every world a program can reach, no handle occurs twice in \<open>Window.handlers\<close>:
  a handle has at most one owner. When \<open>Window.__init__\<close> succeeds, \<open>Window.handlers\<close>
  is what it was when the constructor started, followed by one new entry for the new
  instance, under a handle that was not a key: no entry is overwritten.
\<close>

theorem handlers_one_owner_per_handle:
  "(reachable u l s \<longrightarrow>
      distinct (dict_keys (handlers s)) \<and>
      (\<forall>h w1 w2. (h, w1) \<in> set (handlers s) \<and> (h, w2) \<in> set (handlers s) \<longrightarrow> w1 = w2)) \<and>
   (Window_init u self title ticks s = (Inr r, s') \<longrightarrow>
      (\<exists>h. h \<notin> set (dict_keys (handlers s)) \<and> handlers s' = handlers s @ [(h, self)]))"
proof (intro conjI impI)
  assume re: "reachable u l s"
  show d: "distinct (dict_keys (handlers s))" using reachable_distinct[OF re] .
  show "\<forall>h w1 w2. (h, w1) \<in> set (handlers s) \<and> (h, w2) \<in> set (handlers s) \<longrightarrow> w1 = w2"
    using distinct_keys_one_value[OF d] by blast
next
  assume "Window_init u self title ticks s = (Inr r, s')"
  from Window_init_ok[OF this]
  show "\<exists>h. h \<notin> set (dict_keys (handlers s)) \<and> handlers s' = handlers s @ [(h, self)]"
    by blast
qed

theorem handlers_one_owner_per_handle_witness:
  "reachable scripted_User32 scripted_launcher revival_again \<and>
   handlers revival_again = [(5, 1)] \<and>
   distinct (dict_keys (handlers revival_again)) \<and>
   fst (Window_init scripted_User32 1 (str ''Calc'') 1 (scripted_world [5] [5] [7])) = Inr () \<and>
   5 \<notin> set (dict_keys (handlers (scripted_world [5] [5] [7]))) \<and>
   handlers (snd (Window_init scripted_User32 1 (str ''Calc'') 1 (scripted_world [5] [5] [7])))
     = [(7, 0), (5, 1)]"
proof -
  let ?w = "scripted_world [5] [5] [7]"
  let ?s' = "snd (Window_init scripted_User32 1 (str ''Calc'') 1 ?w)"
  have "reachable scripted_User32 scripted_launcher revival_start"
    by (rule reachable.start) (simp add: scripted_world_def)
  then have "reachable scripted_User32 scripted_launcher revival_created"
    by (rule reachable.create_Window) (rule surjective_pairing)
  then have "reachable scripted_User32 scripted_launcher revival_closed"
    by (rule reachable.step) (rule by_close, rule surjective_pairing)
  then have re: "reachable scripted_User32 scripted_launcher revival_again"
    by (rule reachable.create_Window) (rule surjective_pairing)
  have f: "fst (Window_init scripted_User32 1 (str ''Calc'') 1 ?w) = Inr ()"
    by (simp add: run_defs)
  then have w: "Window_init scripted_User32 1 (str ''Calc'') 1 ?w = (Inr (), ?s')"
    by (metis prod.collapse)
  have h: "handlers revival_again = [(5, 1)]"
    by (simp add: run_defs new_defs)
  have h7: "handlers ?w = [(7, 0)]"
    by (simp add: run_defs)
  have h': "handlers ?s' = [(7, 0), (5, 1)]"
    by (simp add: run_defs)
  have a: "5 \<notin> set (dict_keys (handlers ?w))"
    by (simp add: h7 dict_keys_def)
  have d: "distinct (dict_keys (handlers revival_again))"
    using handlers_one_owner_per_handle[of scripted_User32 scripted_launcher revival_again
      1 "str ''Calc''" 1 "()" "snd (Window_init scripted_User32 1 (str ''Calc'') 1 revival_again)"] re
    by blast
  have "\<exists>h. h \<notin> set (dict_keys (handlers ?w)) \<and> handlers ?s' = handlers ?w @ [(h, 1)]"
    using handlers_one_owner_per_handle[of scripted_User32 scripted_launcher ?w
      1 "str ''Calc''" 1 "()" ?s'] w
    by blast
  with re h d f a h' show ?thesis by blast
qed

text \<open>
  C3. When none of the attempts the timer allows registers a handle (every attempt
  finds nothing, or finds a handle that is registered and still is once the
  reconciliation has returned; in particular when \<open>FindWindowExW\<close> always answers 0),
  \<open>Window.__init__\<close> raises \<open>TimeoutError\<close>. Its message is built around the requested
  title, and the title can be read back from it. The constructor has then made exactly
  one find-window call per attempt and tries no further; \<open>Window.handlers\<close> and the
  instances are as before.
\<close>

theorem Window_init_timeout:
  "((\<forall>o1. fst (FindWindowExW u title o1) = 0) \<longrightarrow> never_acquires u title ticks s) \<and>
   (never_acquires u title ticks s \<longrightarrow>
      fst (Window_init u self title ticks s) = Inl (TimeoutError (timeout_msg title)) \<and>
      handlers (snd (Window_init u self title ticks s)) = handlers s \<and>
      heap (snd (Window_init u self title ticks s)) = heap s \<and>
      length (filter is_FindWindowExW
                (calls_since s (snd (Window_init u self title ticks s)))) = ticks) \<and>
   (timeout_msg title = timeout_msg title' \<longrightarrow> title = title')"
proof (intro conjI impI)
  assume "\<forall>o1. fst (FindWindowExW u title o1) = 0"
  then show "never_acquires u title ticks s" by (rule find_zero_never_acquires)
next
  assume "timeout_msg title = timeout_msg title'"
  then show "title = title'" by (rule timeout_msg_inj)
next
  assume na: "never_acquires u title ticks s"
  from never_acquires_timeout[OF na, of self] obtain s' cs where
    r: "Window_init u self title ticks s = (Inl (TimeoutError (timeout_msg title)), s')"
    "handlers s' = handlers s" "heap s' = heap s" "calls s' = calls s @ cs"
    "length (filter is_FindWindowExW cs) = ticks" by blast
  show "fst (Window_init u self title ticks s) = Inl (TimeoutError (timeout_msg title))"
    using r by simp
  show "handlers (snd (Window_init u self title ticks s)) = handlers s" using r by simp
  show "heap (snd (Window_init u self title ticks s)) = heap s" using r by simp
  show "length (filter is_FindWindowExW
                (calls_since s (snd (Window_init u self title ticks s)))) = ticks"
    using r by (simp add: calls_since_def)
qed

theorem Window_init_timeout_witness:
  "(\<forall>o1. fst (FindWindowExW no_window_User32 (str ''NotepadXYZ'') o1) = 0) \<and>
   fst (Window_init no_window_User32 0 (str ''NotepadXYZ'') 20 (scripted_world [] [] [])) =
     Inl (TimeoutError (timeout_msg (str ''NotepadXYZ''))) \<and>
   never_acquires scripted_User32 (str ''Calc'') 2 (scripted_world [2] [2] [2]) \<and>
   fst (Window_init scripted_User32 1 (str ''Calc'') 2 (scripted_world [2] [2] [2])) =
     Inl (TimeoutError (timeout_msg (str ''Calc''))) \<and>
   handlers (snd (Window_init scripted_User32 1 (str ''Calc'') 2 (scripted_world [2] [2] [2]))) =
     [(2, 0)] \<and>
   timeout_msg (str ''Calc'') = timeout_msg (str ''Calc'')"
proof -
  have z: "\<forall>o1. fst (FindWindowExW no_window_User32 (str ''NotepadXYZ'') o1) = 0"
    by (simp add: no_window_User32_def)
  have n: "never_acquires scripted_User32 (str ''Calc'') 2 (scripted_world [2] [2] [2])"
    by (simp add: numeral_2_eq_2 run_defs)
  have h: "handlers (scripted_world [2] [2] [2]) = [(2, 0)]"
    by (simp add: scripted_world_def)
  from Window_init_timeout[of no_window_User32 "str ''NotepadXYZ''" 20 "scripted_world [] [] []" 0
      "str ''NotepadXYZ''"]
    Window_init_timeout[of scripted_User32 "str ''Calc''" 2 "scripted_world [2] [2] [2]" 1
      "str ''Calc''"]
    z n h
  show ?thesis by simp
qed

text \<open>
  C9, as stated, fails: an instance of the base class \<open>Window\<close> is created and
  registered under handle 5, and it has no first title; reading \<open>first_title\<close> raises
  \<open>AttributeError\<close>.
\<close>

theorem base_window_has_no_first_title:
  "fst (new_Window scripted_User32 (str ''Calc'') 1 (scripted_world [5] [5] [])) = Inr 0 \<and>
   handlers (snd (new_Window scripted_User32 (str ''Calc'') 1 (scripted_world [5] [5] []))) =
     [(5, 0)] \<and>
   priv_hdlr (heap (snd (new_Window scripted_User32 (str ''Calc'') 1
                           (scripted_world [5] [5] []))) 0) = Some 5 \<and>
   priv_first_title (heap (snd (new_Window scripted_User32 (str ''Calc'') 1
                           (scripted_world [5] [5] []))) 0) = None \<and>
   fst (first_title 0 (snd (new_Window scripted_User32 (str ''Calc'') 1
                           (scripted_world [5] [5] [])))) = Inl AttributeError"
  by (simp add: run_defs new_defs)

text \<open>
  C9, amended. A successful acquisition stores the handle on the new instance and
  appends the instance to \<open>Window.handlers\<close> under that handle; the base class stores
  no first title. \<open>RecycleBinFolder\<close> stores the fixed title of the recycle bin (it is
  assigned before the acquisition). \<open>Explorer\<close> stores the title that the operating
  system reports for the handle when it is asked right after the acquisition, in the
  state of the operating system that the acquisition has left, and the \<open>allow_chdir\<close>
  flag; that query is the constructor's last call. After construction no method, property, reconciliation or
  change of the operating system modifies any attribute, and creating an instance leaves
  the attributes of all other instances as they were.
\<close>

theorem construction_stores_attributes:
  "(new_Window u title ticks s = (Inr w, s') \<longrightarrow>
      w = next_ref s \<and> priv_first_title (heap s' w) = None \<and>
      (\<exists>h. priv_hdlr (heap s' w) = Some h \<and> handlers s' = handlers s @ [(h, w)])) \<and>
   (new_RecycleBinFolder u l ticks s = (Inr w, s') \<longrightarrow>
      w = next_ref s \<and> priv_first_title (heap s' w) = Some [12372, 12415, 31665] \<and>
      (\<exists>h. priv_hdlr (heap s' w) = Some h \<and> (h, w) \<in> set (handlers s'))) \<and>
   (new_Explorer u l path allow ticks topt s = (Inr w, s') \<longrightarrow>
      w = next_ref s \<and> priv_allow_chdir (heap s' w) = Some allow \<and>
      (\<exists>p (sv :: 'os world) (si :: 'os world) h.
         validate l path (snd (alloc Explorer s)) = (Inr p, sv) \<and>
         Window_init u w
           (case topt of None \<Rightarrow> Path_name l p
            | Some t \<Rightarrow> if t \<noteq> [] then t else Path_name l p) ticks
           (snd (popen l [str ''explorer'', p] sv)) = (Inr (), si) \<and>
         h \<notin> set (dict_keys (handlers s)) \<and>
         handlers si = handlers s @ [(h, w)] \<and>
         priv_hdlr (heap si w) = Some h \<and>
         calls s' = calls si @ [Call_GetWindowTextW h] \<and>
         os s' = snd (GetWindowTextW u h (os si)) \<and>
         priv_first_title (heap s' w) = Some (fst (GetWindowTextW u h (os si))) \<and>
         priv_hdlr (heap s' w) = Some h \<and> handlers s' = handlers si)) \<and>
   ((method_step u)\<^sup>*\<^sup>* s s' \<longrightarrow> heap s' = heap s) \<and>
   (v \<noteq> next_ref s \<longrightarrow>
      heap (snd (new_Window u title ticks s)) v = heap s v \<and>
      heap (snd (new_RecycleBinFolder u l ticks s)) v = heap s v \<and>
      heap (snd (new_Explorer u l path allow ticks topt s)) v = heap s v)"
proof (intro conjI impI)
  assume a: "new_Window u title ticks s = (Inr w, s')"
  from new_Window_ok[OF a] show "w = next_ref s" "priv_first_title (heap s' w) = None"
    "\<exists>h. priv_hdlr (heap s' w) = Some h \<and> handlers s' = handlers s @ [(h, w)]"
    by blast+
next
  assume a: "new_RecycleBinFolder u l ticks s = (Inr w, s')"
  from new_RecycleBinFolder_ok[OF a] show "w = next_ref s"
    "priv_first_title (heap s' w) = Some [12372, 12415, 31665]"
    "\<exists>h. priv_hdlr (heap s' w) = Some h \<and> (h, w) \<in> set (handlers s')"
    by blast+
next
  assume a: "new_Explorer u l path allow ticks topt s = (Inr w, s')"
  from new_Explorer_ok[OF a] show "w = next_ref s" "priv_allow_chdir (heap s' w) = Some allow"
    "\<exists>p (sv :: 'os world) (si :: 'os world) h.
      validate l path (snd (alloc Explorer s)) = (Inr p, sv) \<and>
      Window_init u w
        (case topt of None \<Rightarrow> Path_name l p
         | Some t \<Rightarrow> if t \<noteq> [] then t else Path_name l p) ticks
        (snd (popen l [str ''explorer'', p] sv)) = (Inr (), si) \<and>
      h \<notin> set (dict_keys (handlers s)) \<and>
      handlers si = handlers s @ [(h, w)] \<and>
      priv_hdlr (heap si w) = Some h \<and>
      calls s' = calls si @ [Call_GetWindowTextW h] \<and>
      os s' = snd (GetWindowTextW u h (os si)) \<and>
      priv_first_title (heap s' w) = Some (fst (GetWindowTextW u h (os si))) \<and>
      priv_hdlr (heap s' w) = Some h \<and> handlers s' = handlers si"
    by blast+
next
  assume "(method_step u)\<^sup>*\<^sup>* s s'"
  from method_steps_frame[OF this] show "heap s' = heap s" by (simp add: frame_def)
next
  assume v: "v \<noteq> next_ref s"
  show "heap (snd (new_Window u title ticks s)) v = heap s v"
    using v by (rule new_Window_other)
  show "heap (snd (new_RecycleBinFolder u l ticks s)) v = heap s v"
    using v by (rule new_RecycleBinFolder_other)
  show "heap (snd (new_Explorer u l path allow ticks topt s)) v = heap s v"
    using v by (rule new_Explorer_other)
qed

theorem construction_stores_attributes_witness:
  "fst (new_Window scripted_User32 (str ''Calc'') 1 (scripted_world [5] [5] [7])) = Inr 1 \<and>
   priv_first_title (heap (snd (new_Window scripted_User32 (str ''Calc'') 1
                                  (scripted_world [5] [5] [7]))) 1) = None \<and>
   fst (new_RecycleBinFolder scripted_User32 scripted_launcher 1 (scripted_world [5] [5] [7])) =
     Inr 1 \<and>
   priv_first_title (heap (snd (new_RecycleBinFolder scripted_User32 scripted_launcher 1
                                  (scripted_world [5] [5] [7]))) 1) =
     Some [12372, 12415, 31665] \<and>
   fst (new_Explorer scripted_User32 scripted_launcher (str ''Docs'') True 1 None
          (scripted_world [5] [5] [7])) = Inr 1 \<and>
   priv_allow_chdir (heap (snd (new_Explorer scripted_User32 scripted_launcher (str ''Docs'')
                                  True 1 None (scripted_world [5] [5] [7]))) 1) = Some True \<and>
   (method_step scripted_User32)\<^sup>*\<^sup>* (scripted_world [5] [5] [7])
      (snd (Window_close scripted_User32 0 (scripted_world [5] [5] [7]))) \<and>
   heap (snd (Window_close scripted_User32 0 (scripted_world [5] [5] [7]))) =
     heap (scripted_world [5] [5] [7]) \<and>
   (0::nat) \<noteq> next_ref (scripted_world [5] [5] [7]) \<and>
   heap (snd (new_Explorer scripted_User32 scripted_launcher (str ''Docs'') True 1 None
                (scripted_world [5] [5] [7]))) 0 = heap (scripted_world [5] [5] [7]) 0 \<and>
   fst (GetWindowTextW retitling_User32 5 (os (scripted_world [5] [5] [7]))) = str ''Old'' \<and>
   fst (new_Explorer retitling_User32 scripted_launcher (str ''Docs'') False 1 None
          (scripted_world [5] [5] [7])) = Inr 1 \<and>
   priv_first_title (heap (snd (new_Explorer retitling_User32 scripted_launcher (str ''Docs'')
                                  False 1 None (scripted_world [5] [5] [7]))) 1) =
     Some (str ''Docs'')"
proof -
  let ?u = scripted_User32 and ?l = scripted_launcher and ?s = "scripted_world [5] [5] [7]"
  let ?sw = "snd (new_Window ?u (str ''Calc'') 1 ?s)"
  let ?sr = "snd (new_RecycleBinFolder ?u ?l 1 ?s)"
  let ?se = "snd (new_Explorer ?u ?l (str ''Docs'') True 1 None ?s)"
  let ?sc = "snd (Window_close ?u 0 ?s)"
  have fw: "fst (new_Window ?u (str ''Calc'') 1 ?s) = Inr 1"
    by (simp add: run_defs ctor_defs)
  have fr: "fst (new_RecycleBinFolder ?u ?l 1 ?s) = Inr 1"
    by (simp add: run_defs ctor_defs first_title_def)
  have fe: "fst (new_Explorer ?u ?l (str ''Docs'') True 1 None ?s) = Inr 1"
    by (simp add: run_defs ctor_defs)
  have n: "(0::nat) \<noteq> next_ref ?s" by (simp add: scripted_world_def)
  have st: "(method_step ?u)\<^sup>*\<^sup>* ?s ?sc"
    by (rule r_into_rtranclp, rule by_close, rule surjective_pairing)
  have w: "new_Window ?u (str ''Calc'') 1 ?s = (Inr 1, ?sw)" using fw by (metis prod.collapse)
  have r: "new_RecycleBinFolder ?u ?l 1 ?s = (Inr 1, ?sr)" using fr by (metis prod.collapse)
  have e: "new_Explorer ?u ?l (str ''Docs'') True 1 None ?s = (Inr 1, ?se)"
    using fe by (metis prod.collapse)
  have 1: "priv_first_title (heap ?sw 1) = None"
    using construction_stores_attributes[of ?u "str ''Calc''" 1 ?s 1 ?sw ?l "str ''Docs''" True None 0] w
    by blast
  have 2: "priv_first_title (heap ?sr 1) = Some [12372, 12415, 31665]"
    using construction_stores_attributes[of ?u "str ''Calc''" 1 ?s 1 ?sr ?l "str ''Docs''" True None 0] r
    by blast
  have 3: "priv_allow_chdir (heap ?se 1) = Some True"
    using construction_stores_attributes[of ?u "str ''Calc''" 1 ?s 1 ?se ?l "str ''Docs''" True None 0] e
    by blast
  have 4: "heap ?sc = heap ?s" "heap ?se 0 = heap ?s 0"
    using construction_stores_attributes[of ?u "str ''Calc''" 1 ?s 1 ?sc ?l "str ''Docs''" True None 0] st n
    by blast+
  let ?v = retitling_User32
  let ?sd = "snd (new_Explorer ?v ?l (str ''Docs'') False 1 None ?s)"
  have old: "fst (GetWindowTextW ?v 5 (os ?s)) = str ''Old''"
    by (simp add: retitling_User32_def scripted_world_def)
  have fd: "fst (new_Explorer ?v ?l (str ''Docs'') False 1 None ?s) = Inr 1"
    by (simp add: run_defs ctor_defs retitling_User32_def)
  then have d: "new_Explorer ?v ?l (str ''Docs'') False 1 None ?s = (Inr 1, ?sd)"
    by (metis prod.collapse)
  from construction_stores_attributes[of ?v "str ''Calc''" 1 ?s 1 ?sd ?l "str ''Docs''" False None 0] d
  obtain p sv si h where
    v: "validate ?l (str ''Docs'') (snd (alloc Explorer ?s)) = (Inr p, sv)"
    and i: "Window_init ?v 1
              (case None of None \<Rightarrow> Path_name ?l p
               | Some t \<Rightarrow> if t \<noteq> [] then t else Path_name ?l p) 1
              (snd (popen ?l [str ''explorer'', p] sv)) = (Inr (), si)"
    and ft: "priv_first_title (heap ?sd 1) = Some (fst (GetWindowTextW ?v h (os si)))"
    by blast
  from v have pv: "p = str ''Docs''" "sv = snd (alloc Explorer ?s)"
    by (simp_all add: validate_def scripted_launcher_def)
  from i have "si = snd (Window_init ?v 1 (str ''Docs'') 1
                      (snd (popen ?l [str ''explorer'', str ''Docs'']
                         (snd (alloc Explorer ?s)))))"
    unfolding pv by (simp add: scripted_launcher_def)
  then have "find_script (os si) = []"
    by (simp add: run_defs ctor_defs retitling_User32_def)
  with ft have 5: "priv_first_title (heap ?sd 1) = Some (str ''Docs'')"
    by (simp add: retitling_User32_def scripted_User32_def)
  from fw fr fe n st 1 2 3 4 old fd 5 show ?thesis by blast
qed

end
